theory Spec2Isabelle
  imports Complex_Main "HOL-Library.AList" "HOL-Library.Sublist"
begin

section \<open>GeoPortal backend: layer cache, refresh and change watcher\<close>

text \<open>
  A shallow embedding of \<^verbatim>\<open>backend/app.py\<close>. The module keeps one global dictionary
  \<^verbatim>\<open>layer_cache\<close> from layer names to layer dictionaries. It is filled by
  \<^verbatim>\<open>refresh_all\<close> (bulk load of every shapefile below the data directory, or of eight
  built-in sample layers) and kept up to date by the watchdog handler \<^verbatim>\<open>SHPHandler\<close>.
  The file system, geopandas and the clock are outside the module; they enter the
  model as an explicit environment.
\<close>

subsection \<open>Python values used by the module\<close>

text \<open>
  A Python \<^verbatim>\<open>dict\<close> keeps its keys in insertion order: assigning to a present key
  replaces the value where it stands, assigning to an absent key appends, and
  \<^verbatim>\<open>pop(k, None)\<close> drops the key when it is there. An association list with distinct
  keys carries exactly that.
\<close>

type_synonym ('k, 'v) dict = "('k \<times> 'v) list"

definition dict_get :: "('k, 'v) dict \<Rightarrow> 'k \<Rightarrow> 'v option" where
  "dict_get d k = map_of d k"

definition dict_set :: "'k \<Rightarrow> 'v \<Rightarrow> ('k, 'v) dict \<Rightarrow> ('k, 'v) dict" where
  "dict_set k v d = AList.update k v d"

definition dict_pop :: "'k \<Rightarrow> ('k, 'v) dict \<Rightarrow> ('k, 'v) dict" where
  "dict_pop k d = AList.delete k d"

definition dict_clear :: "('k, 'v) dict \<Rightarrow> ('k, 'v) dict" where
  "dict_clear d = []"

definition dict_values :: "('k, 'v) dict \<Rightarrow> 'v list" where
  "dict_values d = map snd d"

text \<open>JSON-like data: what \<^verbatim>\<open>json.loads\<close> returns and what the style dictionaries hold.\<close>

datatype json =
    JNull
  | JBool bool
  | JInt int
  | JFloat real
  | JStr string
  | JList "json list"
  | JObj "(string, json) dict"

text \<open>
  Strings. Layer names and paths are taken to be ASCII; \<^verbatim>\<open>str.lower\<close> then maps the
  26 capital letters and nothing else.
\<close>

definition lower_char :: "char \<Rightarrow> char" where
  "lower_char c =
     (case map_of (zip ''ABCDEFGHIJKLMNOPQRSTUVWXYZ'' ''abcdefghijklmnopqrstuvwxyz'') c of
        Some l \<Rightarrow> l
      | None \<Rightarrow> c)"

definition lower :: "string \<Rightarrow> string" where
  "lower s = map lower_char s"

text \<open>\<^verbatim>\<open>k in n\<close> on strings: \<open>k\<close> occurs in \<open>n\<close> as a contiguous piece.\<close>

fun str_contains :: "string \<Rightarrow> string \<Rightarrow> bool" where
  "str_contains k [] = (k = [])"
| "str_contains k (c # cs) = (prefix k (c # cs) \<or> str_contains k cs)"

definition endswith :: "string \<Rightarrow> string \<Rightarrow> bool" where
  "endswith s suf = (length suf \<le> length s \<and> drop (length s - length suf) s = suf)"

text \<open>
  \<^verbatim>\<open>Path(p).stem\<close> for POSIX paths: the last component of the path (empty and
  \<^verbatim>\<open>.\<close> components are dropped by \<^verbatim>\<open>pathlib\<close>), cut before its last dot when that dot
  is neither the first nor the last character.
\<close>

fun split_slash :: "string \<Rightarrow> string list" where
  "split_slash [] = [[]]"
| "split_slash (c # cs) =
     (if c = CHR ''/'' then [] # split_slash cs
      else (case split_slash cs of
              [] \<Rightarrow> [[c]]
            | x # xs \<Rightarrow> (c # x) # xs))"

definition path_name :: "string \<Rightarrow> string" where
  "path_name p =
     (case filter (\<lambda>s. s \<noteq> [] \<and> s \<noteq> ''.'') (split_slash p) of
        [] \<Rightarrow> []
      | x # xs \<Rightarrow> last (x # xs))"

definition rfind_dot :: "string \<Rightarrow> nat option" where
  "rfind_dot s =
     (if CHR ''.'' \<in> set s
      then Some (length s - 1 - length (takeWhile (\<lambda>c. c \<noteq> CHR ''.'') (rev s)))
      else None)"

definition stem :: "string \<Rightarrow> string" where
  "stem p =
     (let n = path_name p in
      case rfind_dot n of
        None \<Rightarrow> n
      | Some i \<Rightarrow> if 0 < i \<and> i + 1 < length n then take i n else n)"

subsection \<open>The tables\<close>

text \<open>The three layer types, the strings \<^verbatim>\<open>"polygon"\<close>, \<^verbatim>\<open>"polyline"\<close>, \<^verbatim>\<open>"point"\<close>.\<close>

datatype kind = Polygon | Polyline | Point

definition NAME_TYPE :: "(string, kind) dict" where
  "NAME_TYPE =
    [(''admin'', Polygon), (''boundary'', Polygon), (''boundaries'', Polygon),
     (''building'', Polygon), (''buildings'', Polygon), (''landuse'', Polygon),
     (''land_use'', Polygon), (''parcel'', Polygon), (''zone'', Polygon), (''block'', Polygon),
     (''water'', Polyline), (''water_supply'', Polyline), (''sewerage'', Polyline),
     (''sewer'', Polyline),
     (''road'', Polyline), (''roads'', Polyline), (''street'', Polyline), (''streets'', Polyline),
     (''pipe'', Polyline), (''pipeline'', Polyline), (''network'', Polyline), (''drain'', Polyline),
     (''chamber'', Point), (''chambers'', Point), (''manhole'', Point), (''manholes'', Point),
     (''utility'', Point), (''utilities'', Point), (''hydrant'', Point), (''valve'', Point),
     (''pump'', Point), (''asset'', Point), (''assets'', Point), (''well'', Point),
     (''tower'', Point)]"

definition GEOM_MAP :: "(string, kind) dict" where
  "GEOM_MAP =
    [(''Point'', Point), (''MultiPoint'', Point),
     (''LineString'', Polyline), (''MultiLineString'', Polyline),
     (''Polygon'', Polygon), (''MultiPolygon'', Polygon)]"

definition COLORS :: "string list" where
  "COLORS =
    [''#4FC3F7'', ''#81C784'', ''#FFB74D'', ''#E57373'', ''#CE93D8'',
     ''#4DB6AC'', ''#F06292'', ''#AED581'', ''#FFD54F'', ''#26C6DA'',
     ''#7986CB'', ''#A1887F'', ''#90A4AE'', ''#FF8A65'', ''#4DD0E1'']"

type_synonym style = "(string, json) dict"

fun DEF_STYLE :: "kind \<Rightarrow> style" where
  "DEF_STYLE Polygon = [(''fillOpacity'', JFloat 0.2), (''weight'', JInt 2), (''opacity'', JFloat 0.9)]"
| "DEF_STYLE Polyline = [(''weight'', JInt 3), (''opacity'', JFloat 0.9)]"
| "DEF_STYLE Point =
     [(''radius'', JInt 7), (''fillOpacity'', JFloat 0.9), (''weight'', JInt 2), (''opacity'', JInt 1)]"

subsection \<open>Type detection and styling\<close>

text \<open>
  What the module reads of a GeoDataFrame once \<^verbatim>\<open>load_shp\<close> has normalised it:
  the geometry type of each row (so \<^verbatim>\<open>len(gdf)\<close> is the length of that list), its
  GeoJSON text parsed back, its total bounds and its column names.
\<close>

record gdf =
  geom_type :: "string list"
  to_json :: json
  total_bounds :: "real list"
  columns :: "string list"

text \<open>The \<^verbatim>\<open>for k, v in NAME_TYPE.items()\<close> loop, returning at the first keyword found.\<close>

fun keyword_loop :: "(string, kind) dict \<Rightarrow> string \<Rightarrow> kind option" where
  "keyword_loop [] n = None"
| "keyword_loop ((k, v) # kvs) n = (if str_contains k n then Some v else keyword_loop kvs n)"

definition detect_type :: "string \<Rightarrow> gdf option \<Rightarrow> kind" where
  "detect_type name g =
     (let n = lower name in
      case keyword_loop NAME_TYPE n of
        Some v \<Rightarrow> v
      | None \<Rightarrow>
          (case g of
             None \<Rightarrow> Polygon
           | Some df \<Rightarrow>
               (case geom_type df of
                  [] \<Rightarrow> Polygon
                | t # ts \<Rightarrow> (case dict_get GEOM_MAP t of Some v \<Rightarrow> v | None \<Rightarrow> Polygon))))"

definition make_style :: "kind \<Rightarrow> string \<Rightarrow> style" where
  "make_style ltype color =
     (let s = DEF_STYLE ltype;
          s = dict_set ''color'' (JStr color) s
      in if ltype = Polygon \<or> ltype = Point then dict_set ''fillColor'' (JStr color) s else s)"

subsection \<open>Layer records and the loader\<close>

text \<open>
  \<^verbatim>\<open>load_shp\<close> returns a dictionary with eight keys; the callers add the ninth,
  \<^verbatim>\<open>style\<close>, before the dictionary enters the cache. (The keys \<^verbatim>\<open>type\<close> and
  \<^verbatim>\<open>fields\<close> are \<open>ltype\<close> and \<open>field_names\<close> here.)
\<close>

record shp_data =
  name :: string
  ltype :: kind
  geojson :: json
  bounds :: "real list"
  count :: nat
  field_names :: "string list"
  file_path :: "string option"
  loaded_at :: real

record layer = shp_data +
  style :: style

text \<open>\<^verbatim>\<open>d["style"] = s\<close> on a freshly loaded dictionary.\<close>

definition set_style :: "shp_data \<Rightarrow> style \<Rightarrow> layer" where
  "set_style d s =
     \<lparr>name = name d, ltype = ltype d, geojson = geojson d, bounds = bounds d,
      count = count d, field_names = field_names d, file_path = file_path d,
      loaded_at = loaded_at d, style = s\<rparr>"

type_synonym cache = "(string, layer) dict"

text \<open>
  The environment of the module. \<open>has_gpd\<close>: geopandas and pandas can be imported
  (\<^verbatim>\<open>_load_gpd\<close>). \<open>data_dir\<close> is \<^verbatim>\<open>DATA_DIR\<close> and \<open>dir_files\<close> the entries below it,
  each as its list of path components, in the order directory scanning yields them.
  \<open>read_file\<close> is \<^verbatim>\<open>gpd.read_file\<close> followed by the CRS and datetime normalisation of
  \<^verbatim>\<open>load_shp\<close>; \<open>None\<close> stands for any exception raised inside the \<^verbatim>\<open>try\<close> block.
\<close>

record env =
  has_gpd :: bool
  data_dir :: string
  dir_files :: "string list list"
  read_file :: "string \<Rightarrow> gdf option"

definition load_shp :: "env \<Rightarrow> real \<Rightarrow> string \<Rightarrow> shp_data option" where
  "load_shp e now path =
     (if \<not> has_gpd e then None
      else case read_file e path of
             None \<Rightarrow> None
           | Some df \<Rightarrow>
               (let nm = stem path in
                Some \<lparr>name = nm, ltype = detect_type nm (Some df), geojson = to_json df,
                      bounds = total_bounds df, count = length (geom_type df),
                      field_names = filter (\<lambda>c. c \<noteq> ''geometry'') (columns df),
                      file_path = Some path, loaded_at = now\<rparr>))"

subsection \<open>Enumerating the shapefiles\<close>

text \<open>
  \<^verbatim>\<open>glob\<close> does not let \<^verbatim>\<open>*\<close> or \<^verbatim>\<open>**\<close> match a name that starts with a dot.
  With \<^verbatim>\<open>recursive=True\<close> the \<^verbatim>\<open>**\<close> of \<^verbatim>\<open>DATA_DIR/**/*.shp\<close> stands for any number of
  directories, none included, so that pattern finds the entries directly in
  \<^verbatim>\<open>DATA_DIR\<close> as well; \<^verbatim>\<open>DATA_DIR/*.shp\<close> finds only those.
\<close>

definition hidden :: "string \<Rightarrow> bool" where
  "hidden c = (case c of [] \<Rightarrow> False | x # xs \<Rightarrow> x = CHR ''.'')"

definition shp_match :: "string \<Rightarrow> bool" where
  "shp_match n = (\<not> hidden n \<and> endswith n ''.shp'')"

definition join_path :: "string \<Rightarrow> string list \<Rightarrow> string" where
  "join_path d cs = d @ concat (map (\<lambda>c. CHR ''/'' # c) cs)"

definition glob_recursive :: "env \<Rightarrow> string list" where
  "glob_recursive e =
     map (join_path (data_dir e))
       (filter (\<lambda>f. f \<noteq> [] \<and> list_all (\<lambda>c. \<not> hidden c) (butlast f) \<and> shp_match (last f))
          (dir_files e))"

definition glob_top :: "env \<Rightarrow> string list" where
  "glob_top e =
     map (join_path (data_dir e))
       (filter (\<lambda>f. length f = 1 \<and> shp_match (last f)) (dir_files e))"

subsection \<open>The built-in sample layers\<close>

record sample =
  s_name :: string
  s_type :: kind
  s_color :: string
  s_bounds :: "real list"
  s_fields :: "string list"
  s_features :: "((string, json) dict \<times> json) list"

abbreviation pt :: "real \<Rightarrow> real \<Rightarrow> json" where
  "pt x y \<equiv> JList [JFloat x, JFloat y]"

definition raw :: "sample list" where
  "raw =
    [
     \<lparr>s_name = ''administrative_boundaries'', s_type = Polygon, s_color = ''#4FC3F7'',
      s_bounds = [72.82, 18.97, 72.93, 19.08],
      s_fields = [''name'', ''population'', ''area_km2''],
      s_features =
      [
       ([(''name'', JStr ''District A''), (''population'', JInt 45000), (''area_km2'', JFloat 12.5)],
        JList [JList [pt 72.82 18.97, pt 72.87 18.97, pt 72.87 19.02, pt 72.82 19.02, pt 72.82 18.97]]),
       ([(''name'', JStr ''District B''), (''population'', JInt 33000), (''area_km2'', JFloat 9.3)],
        JList [JList [pt 72.87 18.97, pt 72.93 18.97, pt 72.93 19.02, pt 72.87 19.02, pt 72.87 18.97]]),
       ([(''name'', JStr ''District C''), (''population'', JInt 62000), (''area_km2'', JFloat 15.1)],
        JList [JList [pt 72.82 19.02, pt 72.93 19.02, pt 72.93 19.08, pt 72.82 19.08, pt 72.82 19.02]])
      ]\<rparr>,
     \<lparr>s_name = ''buildings'', s_type = Polygon, s_color = ''#FFB74D'',
      s_bounds = [72.832, 18.975, 72.89, 19.011],
      s_fields = [''id'', ''use'', ''floors'', ''year''],
      s_features =
      [
       ([(''id'', JStr ''B001''), (''use'', JStr ''Residential''), (''floors'', JInt 4), (''year'', JInt 2010)],
        JList [JList [pt 72.832 18.975, pt 72.836 18.975, pt 72.836 18.979, pt 72.832 18.979, pt 72.832 18.975]]),
       ([(''id'', JStr ''B002''), (''use'', JStr ''Commercial''), (''floors'', JInt 8), (''year'', JInt 2015)],
        JList [JList [pt 72.841 18.982, pt 72.846 18.982, pt 72.846 18.987, pt 72.841 18.987, pt 72.841 18.982]]),
       ([(''id'', JStr ''B003''), (''use'', JStr ''Industrial''), (''floors'', JInt 2), (''year'', JInt 2005)],
        JList [JList [pt 72.856 18.99, pt 72.863 18.99, pt 72.863 18.996, pt 72.856 18.996, pt 72.856 18.99]]),
       ([(''id'', JStr ''B004''), (''use'', JStr ''Residential''), (''floors'', JInt 5), (''year'', JInt 2018)],
        JList [JList [pt 72.871 18.978, pt 72.875 18.978, pt 72.875 18.983, pt 72.871 18.983, pt 72.871 18.978]]),
       ([(''id'', JStr ''B005''), (''use'', JStr ''Mixed Use''), (''floors'', JInt 10), (''year'', JInt 2020)],
        JList [JList [pt 72.884 19.005, pt 72.89 19.005, pt 72.89 19.011, pt 72.884 19.011, pt 72.884 19.005]])
      ]\<rparr>,
     \<lparr>s_name = ''land_use'', s_type = Polygon, s_color = ''#81C784'',
      s_bounds = [72.825, 18.972, 72.89, 19.005],
      s_fields = [''category'', ''area_ha'', ''density''],
      s_features =
      [
       ([(''category'', JStr ''Residential''), (''area_ha'', JFloat 45.2), (''density'', JStr ''Medium'')],
        JList [JList [pt 72.825 18.972, pt 72.848 18.972, pt 72.848 18.99, pt 72.825 18.99, pt 72.825 18.972]]),
       ([(''category'', JStr ''Commercial''), (''area_ha'', JFloat 22.8), (''density'', JStr ''High'')],
        JList [JList [pt 72.848 18.972, pt 72.868 18.972, pt 72.868 18.99, pt 72.848 18.99, pt 72.848 18.972]]),
       ([(''category'', JStr ''Green Space''), (''area_ha'', JFloat 31.5), (''density'', JStr ''Low'')],
        JList [JList [pt 72.868 18.972, pt 72.89 18.972, pt 72.89 18.99, pt 72.868 18.99, pt 72.868 18.972]]),
       ([(''category'', JStr ''Industrial''), (''area_ha'', JFloat 18.0), (''density'', JStr ''Low'')],
        JList [JList [pt 72.825 18.99, pt 72.89 18.99, pt 72.89 19.005, pt 72.825 19.005, pt 72.825 18.99]])
      ]\<rparr>,
     \<lparr>s_name = ''road_network'', s_type = Polyline, s_color = ''#90A4AE'',
      s_bounds = [72.82, 18.972, 72.9, 19.03],
      s_fields = [''name'', ''class'', ''lanes''],
      s_features =
      [
       ([(''name'', JStr ''Main Road''), (''class'', JStr ''Primary''), (''lanes'', JInt 4)],
        JList [pt 72.82 18.99, pt 72.84 18.99, pt 72.86 18.992, pt 72.88 18.992, pt 72.9 18.993]),
       ([(''name'', JStr ''North Avenue''), (''class'', JStr ''Secondary''), (''lanes'', JInt 2)],
        JList [pt 72.835 18.972, pt 72.835 18.99, pt 72.836 19.01, pt 72.835 19.03]),
       ([(''name'', JStr ''Cross Street''), (''class'', JStr ''Secondary''), (''lanes'', JInt 2)],
        JList [pt 72.82 19.0, pt 72.84 19.0, pt 72.86 19.0, pt 72.88 18.998]),
       ([(''name'', JStr ''East Road''), (''class'', JStr ''Collector''), (''lanes'', JInt 2)],
        JList [pt 72.86 18.972, pt 72.862 18.985, pt 72.865 19.0, pt 72.868 19.015]),
       ([(''name'', JStr ''West Link''), (''class'', JStr ''Local''), (''lanes'', JInt 1)],
        JList [pt 72.822 18.98, pt 72.822 18.995, pt 72.825 19.01])
      ]\<rparr>,
     \<lparr>s_name = ''water_supply'', s_type = Polyline, s_color = ''#4DD0E1'',
      s_bounds = [72.825, 18.975, 72.878, 19.012],
      s_fields = [''pipe_id'', ''dia_mm'', ''material''],
      s_features =
      [
       ([(''pipe_id'', JStr ''WS-001''), (''dia_mm'', JInt 300), (''material'', JStr ''DI'')],
        JList [pt 72.825 18.98, pt 72.84 18.98, pt 72.855 18.981, pt 72.87 18.982]),
       ([(''pipe_id'', JStr ''WS-002''), (''dia_mm'', JInt 150), (''material'', JStr ''PVC'')],
        JList [pt 72.84 18.975, pt 72.84 18.988, pt 72.84 19.0, pt 72.841 19.012]),
       ([(''pipe_id'', JStr ''WS-003''), (''dia_mm'', JInt 200), (''material'', JStr ''CI'')],
        JList [pt 72.855 18.975, pt 72.86 18.988, pt 72.862 19.0]),
       ([(''pipe_id'', JStr ''WS-004''), (''dia_mm'', JInt 100), (''material'', JStr ''PVC'')],
        JList [pt 72.87 18.985, pt 72.875 18.995, pt 72.878 19.005])
      ]\<rparr>,
     \<lparr>s_name = ''sewerage_network'', s_type = Polyline, s_color = ''#A1887F'',
      s_bounds = [72.822, 18.978, 72.865, 19.005],
      s_fields = [''pipe_id'', ''dia_mm'', ''gradient''],
      s_features =
      [
       ([(''pipe_id'', JStr ''SW-001''), (''dia_mm'', JInt 450), (''gradient'', JStr ''1:200'')],
        JList [pt 72.822 18.985, pt 72.838 18.985, pt 72.852 18.986, pt 72.865 18.987]),
       ([(''pipe_id'', JStr ''SW-002''), (''dia_mm'', JInt 300), (''gradient'', JStr ''1:150'')],
        JList [pt 72.838 18.978, pt 72.838 18.99, pt 72.839 19.003]),
       ([(''pipe_id'', JStr ''SW-003''), (''dia_mm'', JInt 225), (''gradient'', JStr ''1:100'')],
        JList [pt 72.85 18.978, pt 72.853 18.992, pt 72.855 19.005])
      ]\<rparr>,
     \<lparr>s_name = ''chambers'', s_type = Point, s_color = ''#CE93D8'',
      s_bounds = [72.835, 18.98, 72.88, 19.008],
      s_fields = [''id'', ''type'', ''depth_m'', ''condition''],
      s_features =
      [
       ([(''id'', JStr ''CH-001''), (''type'', JStr ''Inspection''), (''depth_m'', JFloat 2.5), (''condition'', JStr ''Good'')],
        pt 72.835 18.982),
       ([(''id'', JStr ''CH-002''), (''type'', JStr ''Junction''), (''depth_m'', JFloat 3.0), (''condition'', JStr ''Fair'')],
        pt 72.845 18.988),
       ([(''id'', JStr ''CH-003''), (''type'', JStr ''Inspection''), (''depth_m'', JFloat 2.0), (''condition'', JStr ''Good'')],
        pt 72.858 18.995),
       ([(''id'', JStr ''CH-004''), (''type'', JStr ''Terminal''), (''depth_m'', JFloat 4.0), (''condition'', JStr ''Poor'')],
        pt 72.87 18.98),
       ([(''id'', JStr ''CH-005''), (''type'', JStr ''Junction''), (''depth_m'', JFloat 2.8), (''condition'', JStr ''Good'')],
        pt 72.88 18.998),
       ([(''id'', JStr ''CH-006''), (''type'', JStr ''Inspection''), (''depth_m'', JFloat 2.2), (''condition'', JStr ''Good'')],
        pt 72.84 19.005)
      ]\<rparr>,
     \<lparr>s_name = ''utilities'', s_type = Point, s_color = ''#F06292'',
      s_bounds = [72.832, 18.973, 72.884, 19.015],
      s_fields = [''id'', ''type'', ''status''],
      s_features =
      [
       ([(''id'', JStr ''HY-001''), (''type'', JStr ''Hydrant''), (''pressure_bar'', JFloat 4.5), (''status'', JStr ''Active'')],
        pt 72.832 18.978),
       ([(''id'', JStr ''HY-002''), (''type'', JStr ''Hydrant''), (''pressure_bar'', JFloat 4.2), (''status'', JStr ''Active'')],
        pt 72.848 18.985),
       ([(''id'', JStr ''VL-001''), (''type'', JStr ''Valve''), (''dia_mm'', JInt 150), (''status'', JStr ''Open'')],
        pt 72.862 18.992),
       ([(''id'', JStr ''VL-002''), (''type'', JStr ''Valve''), (''dia_mm'', JInt 200), (''status'', JStr ''Closed'')],
        pt 72.875 18.975),
       ([(''id'', JStr ''PS-001''), (''type'', JStr ''Pump Station''), (''capacity_kl'', JInt 500), (''status'', JStr ''Active'')],
        pt 72.884 19.003),
       ([(''id'', JStr ''MH-001''), (''type'', JStr ''Manhole''), (''depth_m'', JFloat 3.5), (''status'', JStr ''Active'')],
        pt 72.842 19.008),
       ([(''id'', JStr ''MH-002''), (''type'', JStr ''Manhole''), (''depth_m'', JFloat 2.8), (''status'', JStr ''Active'')],
        pt 72.856 19.015),
       ([(''id'', JStr ''WT-001''), (''type'', JStr ''Water Tower''), (''capacity_kl'', JInt 500), (''status'', JStr ''Active'')],
        pt 72.865 18.973)
      ]\<rparr>
    ]"

definition to_geojson :: "sample \<Rightarrow> json" where
  "to_geojson d =
     (let gt = (if s_type d = Polygon then ''Polygon''
                else if s_type d = Polyline then ''LineString'' else ''Point'')
      in JObj [(''type'', JStr ''FeatureCollection''),
               (''features'',
                JList (map (\<lambda>(props, coords).
                         JObj [(''type'', JStr ''Feature''),
                               (''properties'', JObj props),
                               (''geometry'',
                                JObj [(''type'', JStr gt), (''coordinates'', coords)])])
                       (s_features d)))])"

text \<open>
  The clock: \<open>clk k\<close> is what \<^verbatim>\<open>time.time()\<close> returns in the \<open>k\<close>-th loop iteration of a
  call (the iterations of \<^verbatim>\<open>refresh_all\<close> first, those of \<^verbatim>\<open>_load_samples\<close> after).
\<close>

fun samples_loop :: "(nat \<Rightarrow> real) \<Rightarrow> nat \<Rightarrow> sample list \<Rightarrow> cache \<Rightarrow> cache" where
  "samples_loop clk j [] c = c"
| "samples_loop clk j (d # ds) c =
     samples_loop clk (Suc j) ds
       (dict_set (s_name d)
          \<lparr>name = s_name d, ltype = s_type d, geojson = to_geojson d, bounds = s_bounds d,
           count = length (s_features d), field_names = s_fields d, file_path = None,
           loaded_at = clk j, style = make_style (s_type d) (s_color d)\<rparr>
          c)"

definition load_samples :: "(nat \<Rightarrow> real) \<Rightarrow> cache \<Rightarrow> cache" where
  "load_samples clk c = samples_loop clk 0 raw c"

subsection \<open>Bulk refresh\<close>

text \<open>The \<^verbatim>\<open>for i, shp in enumerate(shps)\<close> loop; \<open>i\<close> is the index of the next path.\<close>

fun refresh_loop :: "env \<Rightarrow> (nat \<Rightarrow> real) \<Rightarrow> nat \<Rightarrow> string list \<Rightarrow> cache \<Rightarrow> cache" where
  "refresh_loop e clk i [] c = c"
| "refresh_loop e clk i (shp # shps) c =
     (case load_shp e (clk i) shp of
        None \<Rightarrow> refresh_loop e clk (Suc i) shps c
      | Some d \<Rightarrow>
          refresh_loop e clk (Suc i) shps
            (dict_set (name d)
               (set_style d (make_style (ltype d) (COLORS ! (i mod length COLORS)))) c))"

definition enumerate_shps :: "env \<Rightarrow> string list" where
  "enumerate_shps e = glob_recursive e @ glob_top e"

definition refresh_all :: "env \<Rightarrow> (nat \<Rightarrow> real) \<Rightarrow> cache \<Rightarrow> cache" where
  "refresh_all e clk c =
     (let shps = enumerate_shps e;
          c1 = refresh_loop e clk 0 shps (dict_clear c)
      in if c1 = [] then load_samples (\<lambda>j. clk (length shps + j)) c1 else c1)"

subsection \<open>The change watcher\<close>

text \<open>
  \<^verbatim>\<open>SHPHandler\<close> and the cache it writes to. \<open>timers\<close> is \<^verbatim>\<open>self._timers\<close>, with each
  \<^verbatim>\<open>threading.Timer\<close> standing as a number; \<open>armed\<close> lists the timers that were
  started and have neither fired nor been cancelled, each with the path it will
  reload; \<open>next_timer\<close> numbers the next timer object.
\<close>

record event =
  is_directory :: bool
  src_path :: string

record wstate =
  layer_cache :: cache
  timers :: "(string, nat) dict"
  armed :: "(nat, string) dict"
  next_timer :: nat

definition debounce :: "string \<Rightarrow> wstate \<Rightarrow> wstate" where
  "debounce path s =
     (if endswith path ''.shp''
      then (let a = (case dict_get (timers s) path of
                       None \<Rightarrow> armed s
                     | Some t \<Rightarrow> dict_pop t (armed s));
                t = next_timer s
            in s\<lparr>timers := dict_set path t (timers s),
                 armed := a @ [(t, path)],
                 next_timer := Suc t\<rparr>)
      else s)"

definition reload :: "env \<Rightarrow> real \<Rightarrow> string \<Rightarrow> cache \<Rightarrow> cache" where
  "reload e now path c =
     (let nm = stem path in
      case load_shp e now path of
        Some d \<Rightarrow>
          dict_set nm (set_style d (make_style (ltype d) (COLORS ! (length c mod length COLORS)))) c
      | None \<Rightarrow> dict_pop nm c)"

text \<open>An armed timer runs out: \<^verbatim>\<open>_reload\<close> is called with the timer's path.\<close>

definition timer_fire :: "env \<Rightarrow> real \<Rightarrow> nat \<Rightarrow> wstate \<Rightarrow> wstate" where
  "timer_fire e now t s =
     (case dict_get (armed s) t of
        None \<Rightarrow> s
      | Some path \<Rightarrow>
          s\<lparr>armed := dict_pop t (armed s),
            layer_cache := reload e now path (layer_cache s)\<rparr>)"

definition on_created :: "event \<Rightarrow> wstate \<Rightarrow> wstate" where
  "on_created ev s = (if \<not> is_directory ev then debounce (src_path ev) s else s)"

definition on_modified :: "event \<Rightarrow> wstate \<Rightarrow> wstate" where
  "on_modified ev s = (if \<not> is_directory ev then debounce (src_path ev) s else s)"

definition on_deleted :: "event \<Rightarrow> wstate \<Rightarrow> wstate" where
  "on_deleted ev s =
     (if \<not> is_directory ev \<and> endswith (src_path ev) ''.shp''
      then s\<lparr>layer_cache := dict_pop (stem (src_path ev)) (layer_cache s)\<rparr>
      else s)"

subsection \<open>The read side\<close>

definition list_layers ::
  "cache \<Rightarrow> (string \<times> kind \<times> nat \<times> string list \<times> real list \<times> style) list" where
  "list_layers c =
     map (\<lambda>v. (name v, ltype v, count v, field_names v, bounds v, style v)) (dict_values c)"

definition get_layer :: "cache \<Rightarrow> string \<Rightarrow> layer option" where
  "get_layer c n = dict_get c n"

subsection \<open>The cache operations\<close>

text \<open>
  The three ways the module writes to \<^verbatim>\<open>layer_cache\<close>: \<^verbatim>\<open>layer_cache[d["name"]] = d\<close>
  for one record (upsert), \<^verbatim>\<open>layer_cache.pop(name, None)\<close> (remove), and
  \<^verbatim>\<open>layer_cache.clear()\<close> followed by one assignment per record (replace all, the
  commit of \<^verbatim>\<open>refresh_all\<close>). A snapshot is \<^verbatim>\<open>layer_cache.values()\<close>.
\<close>

datatype cache_op = Upsert layer | Remove string | ReplaceAll "layer list"

definition upsert :: "layer \<Rightarrow> cache \<Rightarrow> cache" where
  "upsert r c = dict_set (name r) r c"

fun apply_op :: "cache_op \<Rightarrow> cache \<Rightarrow> cache" where
  "apply_op (Upsert r) c = upsert r c"
| "apply_op (Remove n) c = dict_pop n c"
| "apply_op (ReplaceAll rs) c = fold upsert rs (dict_clear c)"

definition run_ops :: "cache_op list \<Rightarrow> cache \<Rightarrow> cache" where
  "run_ops ops c = fold apply_op ops c"

definition snapshotAll :: "cache \<Rightarrow> layer list" where
  "snapshotAll c = dict_values c"

text \<open>
  The cache as the specification describes it: a mapping from names to records, on
  which an upsert overwrites the entry of the record's name, a removal deletes the
  entry of a name, and a replacement installs the given records and nothing else
  (should two of the given records carry one name, the later of them).
\<close>

fun spec_apply :: "cache_op \<Rightarrow> (string \<rightharpoonup> layer) \<Rightarrow> (string \<rightharpoonup> layer)" where
  "spec_apply (Upsert r) m = m(name r \<mapsto> r)"
| "spec_apply (Remove n) m = m(n := None)"
| "spec_apply (ReplaceAll rs) m = fold (\<lambda>r m'. m'(name r \<mapsto> r)) rs Map.empty"

definition spec_run :: "cache_op list \<Rightarrow> (string \<rightharpoonup> layer) \<Rightarrow> (string \<rightharpoonup> layer)" where
  "spec_run ops m = fold spec_apply ops m"

subsection \<open>The lock\<close>

text \<open>
  What a call does to \<^verbatim>\<open>cache_lock\<close>, the loader and the cache, in program order:
  entering and leaving \<^verbatim>\<open>with cache_lock\<close>, each \<^verbatim>\<open>load_shp\<close> call (the file I/O and the
  parsing), and each write to the dictionary.
\<close>

datatype action = Acquire | Release | Clear | Load string | Store string | Pop string

fun refresh_loop_tr ::
  "env \<Rightarrow> (nat \<Rightarrow> real) \<Rightarrow> nat \<Rightarrow> string list \<Rightarrow> cache \<times> action list \<Rightarrow> cache \<times> action list" where
  "refresh_loop_tr e clk i [] (c, tr) = (c, tr)"
| "refresh_loop_tr e clk i (shp # shps) (c, tr) =
     (case load_shp e (clk i) shp of
        None \<Rightarrow> refresh_loop_tr e clk (Suc i) shps (c, tr @ [Load shp])
      | Some d \<Rightarrow>
          refresh_loop_tr e clk (Suc i) shps
            (dict_set (name d)
               (set_style d (make_style (ltype d) (COLORS ! (i mod length COLORS)))) c,
             tr @ [Load shp, Store (name d)]))"

definition load_samples_tr ::
  "(nat \<Rightarrow> real) \<Rightarrow> cache \<times> action list \<Rightarrow> cache \<times> action list" where
  "load_samples_tr clk ct =
     (load_samples clk (fst ct),
      snd ct @ [Acquire] @ map (\<lambda>d. Store (s_name d)) raw @ [Release])"

definition refresh_all_tr :: "env \<Rightarrow> (nat \<Rightarrow> real) \<Rightarrow> cache \<Rightarrow> cache \<times> action list" where
  "refresh_all_tr e clk c =
     (let shps = enumerate_shps e;
          ct = refresh_loop_tr e clk 0 shps (dict_clear c, [Acquire, Clear]);
          ct = (fst ct, snd ct @ [Release])
      in if fst ct = [] then load_samples_tr (\<lambda>j. clk (length shps + j)) ct else ct)"

definition reload_tr :: "env \<Rightarrow> real \<Rightarrow> string \<Rightarrow> cache \<Rightarrow> cache \<times> action list" where
  "reload_tr e now path c =
     (let nm = stem path in
      case load_shp e now path of
        Some d \<Rightarrow>
          (dict_set nm
             (set_style d (make_style (ltype d) (COLORS ! (length c mod length COLORS)))) c,
           [Load path, Acquire, Store nm, Release])
      | None \<Rightarrow> (dict_pop nm c, [Load path, Acquire, Pop nm, Release]))"

text \<open>Some \<^verbatim>\<open>load_shp\<close> call of the trace runs while the lock is held.\<close>

fun load_while_locked :: "bool \<Rightarrow> action list \<Rightarrow> bool" where
  "load_while_locked held [] = False"
| "load_while_locked held (Acquire # as) = load_while_locked True as"
| "load_while_locked held (Release # as) = load_while_locked False as"
| "load_while_locked held (Load p # as) = (held \<or> load_while_locked held as)"
| "load_while_locked held (a # as) = load_while_locked held as"

text \<open>The \<^verbatim>\<open>load_shp\<close> calls of a trace, in order.\<close>

fun loads_of :: "action list \<Rightarrow> string list" where
  "loads_of [] = []"
| "loads_of (Load p # as) = p # loads_of as"
| "loads_of (a # as) = loads_of as"

subsection \<open>Auxiliary notions for the proofs\<close>

text \<open>Every entry of the cache stands under the name its record carries, and no key twice.\<close>

definition keyed_by_name :: "cache \<Rightarrow> bool" where
  "keyed_by_name c = (distinct (map fst c) \<and> list_all (\<lambda>kv. fst kv = name (snd kv)) c)"

text \<open>A cached record without its \<^verbatim>\<open>loaded_at\<close> time stamp, and a cache read that way.\<close>

definition layer_content ::
  "layer \<Rightarrow> string \<times> kind \<times> json \<times> real list \<times> nat \<times> string list \<times> string option \<times> style" where
  "layer_content v =
     (name v, ltype v, geojson v, bounds v, count v, field_names v, file_path v, style v)"

definition cache_content ::
  "cache \<Rightarrow>
   (string \<times> string \<times> kind \<times> json \<times> real list \<times> nat \<times> string list \<times> string option \<times> style) list" where
  "cache_content c = map (\<lambda>kv. (fst kv, layer_content (snd kv))) c"

subsection \<open>Concrete inputs\<close>

text \<open>
  A data directory holding the single readable shapefile \<^verbatim>\<open>a.shp\<close> (two point
  features), one holding the single unreadable shapefile \<^verbatim>\<open>bad.shp\<close>, a clock that
  stands still, and watcher states over them.
\<close>

definition gdf_pts :: gdf where
  "gdf_pts =
     \<lparr>geom_type = [''Point'', ''Point''],
      to_json = JObj [(''type'', JStr ''FeatureCollection'')],
      total_bounds = [0, 0, 1, 1],
      columns = [''id'', ''geometry'']\<rparr>"

definition gdf_coll :: gdf where
  "gdf_coll =
     \<lparr>geom_type = [''GeometryCollection''],
      to_json = JObj [(''type'', JStr ''FeatureCollection'')],
      total_bounds = [0, 0, 1, 1],
      columns = [''id'', ''geometry'']\<rparr>"

definition env_one :: env where
  "env_one =
     \<lparr>has_gpd = True, data_dir = ''data'', dir_files = [[''a.shp'']],
      read_file = (\<lambda>p. if p = ''data/a.shp'' then Some gdf_pts else None)\<rparr>"

definition env_bad :: env where
  "env_bad =
     \<lparr>has_gpd = True, data_dir = ''data'', dir_files = [[''bad.shp'']],
      read_file = (\<lambda>p. None)\<rparr>"

definition clk0 :: "nat \<Rightarrow> real" where
  "clk0 k = 0"

definition lyr_bad :: layer where
  "lyr_bad =
     \<lparr>name = ''bad'', ltype = Polygon, geojson = JNull, bounds = [0, 0, 1, 1], count = 0,
      field_names = [], file_path = Some ''data/bad.shp'', loaded_at = 0,
      style = make_style Polygon ''#4FC3F7''\<rparr>"

definition ws_one :: wstate where
  "ws_one = \<lparr>layer_cache = [], timers = [(''data/a.shp'', 0)], armed = [(0, ''data/a.shp'')],
             next_timer = 1\<rparr>"

definition ws_bad :: wstate where
  "ws_bad = \<lparr>layer_cache = [(''bad'', lyr_bad)], timers = [(''data/bad.shp'', 0)],
             armed = [(0, ''data/bad.shp'')], next_timer = 1\<rparr>"

definition ev_shp :: event where
  "ev_shp = \<lparr>is_directory = False, src_path = ''data/bad.shp''\<rparr>"

definition ev_dbf :: event where
  "ev_dbf = \<lparr>is_directory = False, src_path = ''data/bad.dbf''\<rparr>"

definition gdf_empty :: gdf where
  "gdf_empty =
     \<lparr>geom_type = [],
      to_json = JObj [(''type'', JStr ''FeatureCollection'')],
      total_bounds = [],
      columns = [''geometry'']\<rparr>"

text \<open>The dictionary \<^verbatim>\<open>_load_samples\<close> builds for one row of its table.\<close>

definition sample_layer :: "real \<Rightarrow> sample \<Rightarrow> layer" where
  "sample_layer t d =
     \<lparr>name = s_name d, ltype = s_type d, geojson = to_geojson d, bounds = s_bounds d,
      count = length (s_features d), field_names = s_fields d, file_path = None,
      loaded_at = t, style = make_style (s_type d) (s_color d)\<rparr>"

text \<open>\<^verbatim>\<open>load_shp\<close> returns a record for the path (the clock has no say in that).\<close>

definition loadable :: "env \<Rightarrow> string \<Rightarrow> bool" where
  "loadable e p = (load_shp e 0 p \<noteq> None)"

subsection \<open>The writers of the cache\<close>

text \<open>
  Everything that writes to \<^verbatim>\<open>layer_cache\<close> once the module runs: the three watchdog
  callbacks, a debounce timer running out (\<^verbatim>\<open>_reload\<close>), and \<^verbatim>\<open>refresh_all\<close> (at
  start-up and on \<^verbatim>\<open>POST /api/refresh\<close>). \<open>step\<close> runs one of them on the state the
  module is in, \<open>run_calls\<close> a sequence of them; \<open>ws_init\<close> is the module as loaded,
  before \<^verbatim>\<open>startup()\<close>.
\<close>

datatype call =
    Created event
  | Modified event
  | Deleted event
  | TimerFires env real nat
  | Refresh env "nat \<Rightarrow> real"

fun step :: "call \<Rightarrow> wstate \<Rightarrow> wstate" where
  "step (Created ev) s = on_created ev s"
| "step (Modified ev) s = on_modified ev s"
| "step (Deleted ev) s = on_deleted ev s"
| "step (TimerFires e now t) s = timer_fire e now t s"
| "step (Refresh e clk) s = s\<lparr>layer_cache := refresh_all e clk (layer_cache s)\<rparr>"

definition run_calls :: "call list \<Rightarrow> wstate \<Rightarrow> wstate" where
  "run_calls cs s = fold step cs s"

definition ws_init :: wstate where
  "ws_init = \<lparr>layer_cache = [], timers = [], armed = [], next_timer = 0\<rparr>"

text \<open>
  The cache operations, in the specification's terms, that a call issues in a state.
  A callback for a created or modified file only arms a timer. A deletion of a
  shapefile is the removal of its stem. A timer running out is the upsert of the
  record just loaded, styled by the present cache size, or the removal of the stem
  when the load fails. \<^verbatim>\<open>refresh_all\<close> is the replacement by the records that load, in
  enumeration order, each styled by its index, followed by one upsert per sample when
  no record loaded.
\<close>

fun loaded_records :: "env \<Rightarrow> (nat \<Rightarrow> real) \<Rightarrow> nat \<Rightarrow> string list \<Rightarrow> layer list" where
  "loaded_records e clk i [] = []"
| "loaded_records e clk i (shp # shps) =
     (case load_shp e (clk i) shp of
        None \<Rightarrow> loaded_records e clk (Suc i) shps
      | Some d \<Rightarrow>
          set_style d (make_style (ltype d) (COLORS ! (i mod length COLORS)))
            # loaded_records e clk (Suc i) shps)"

definition sample_records :: "(nat \<Rightarrow> real) \<Rightarrow> layer list" where
  "sample_records clk = map (\<lambda>(k, d). sample_layer (clk k) d) (List.enumerate 0 raw)"

fun call_ops :: "call \<Rightarrow> wstate \<Rightarrow> cache_op list" where
  "call_ops (Created ev) s = []"
| "call_ops (Modified ev) s = []"
| "call_ops (Deleted ev) s =
     (if \<not> is_directory ev \<and> endswith (src_path ev) ''.shp''
      then [Remove (stem (src_path ev))] else [])"
| "call_ops (TimerFires e now t) s =
     (case dict_get (armed s) t of
        None \<Rightarrow> []
      | Some path \<Rightarrow>
          (case load_shp e now path of
             Some d \<Rightarrow>
               [Upsert (set_style d (make_style (ltype d)
                  (COLORS ! (length (layer_cache s) mod length COLORS))))]
           | None \<Rightarrow> [Remove (stem path)]))"
| "call_ops (Refresh e clk) s =
     (let shps = enumerate_shps e;
          rs = loaded_records e clk 0 shps
      in ReplaceAll rs #
           (if rs = [] then map Upsert (sample_records (\<lambda>j. clk (length shps + j))) else []))"

fun issued :: "call list \<Rightarrow> wstate \<Rightarrow> cache_op list" where
  "issued [] s = []"
| "issued (x # xs) s = call_ops x s @ issued xs (step x s)"

section \<open>Properties\<close>

subsection \<open>Dictionaries\<close>

lemma dict_get_set: "dict_get (dict_set k v d) = (dict_get d)(k \<mapsto> v)"
  by (rule ext) (simp add: dict_get_def dict_set_def update_conv')

lemma dict_get_pop: "dict_get (dict_pop k d) = (dict_get d)(k := None)"
  by (rule ext) (simp add: dict_get_def dict_pop_def delete_conv')

lemma distinct_dict_set: "distinct (map fst d) \<Longrightarrow> distinct (map fst (dict_set k v d))"
  by (simp add: dict_set_def distinct_update)

lemma distinct_dict_pop: "distinct (map fst d) \<Longrightarrow> distinct (map fst (dict_pop k d))"
  by (simp add: dict_pop_def distinct_delete)

lemma dict_get_Nil: "dict_get [] = Map.empty"
  by (rule ext) (simp add: dict_get_def)

lemma list_all_update: "list_all P c \<Longrightarrow> P (k, v) \<Longrightarrow> list_all P (AList.update k v c)"
  by (induction c) auto

lemma list_all_delete: "list_all P c \<Longrightarrow> list_all P (AList.delete k c)"
  by (induction c) auto

lemma dict_get_eq: "dict_get d = map_of d"
  by (rule ext) (simp add: dict_get_def)

lemma keyed_Nil: "keyed_by_name []"
  by (simp add: keyed_by_name_def)

lemma keyed_upsert: "keyed_by_name c \<Longrightarrow> keyed_by_name (upsert r c)"
  unfolding keyed_by_name_def upsert_def dict_set_def
  by (intro conjI distinct_update list_all_update) simp_all

lemma keyed_pop: "keyed_by_name c \<Longrightarrow> keyed_by_name (dict_pop n c)"
  unfolding keyed_by_name_def dict_pop_def
  by (intro conjI distinct_delete list_all_delete) simp_all

lemma keyed_fold_upsert: "keyed_by_name c \<Longrightarrow> keyed_by_name (fold upsert rs c)"
  by (induction rs arbitrary: c) (simp_all add: keyed_upsert)

lemma get_fold_upsert:
  "dict_get (fold upsert rs c) = fold (\<lambda>r m'. m'(name r \<mapsto> r)) rs (dict_get c)"
  by (induction rs arbitrary: c) (simp_all add: upsert_def dict_get_set)

lemma keyed_apply_op: "keyed_by_name c \<Longrightarrow> keyed_by_name (apply_op x c)"
  by (cases x) (simp_all add: keyed_upsert keyed_pop keyed_fold_upsert dict_clear_def keyed_Nil)

lemma get_apply_op: "dict_get (apply_op x c) = spec_apply x (dict_get c)"
  by (cases x) (simp_all add: upsert_def dict_get_set dict_get_pop get_fold_upsert dict_clear_def dict_get_Nil)

lemma keyed_run_ops: "keyed_by_name c \<Longrightarrow> keyed_by_name (run_ops ops c)"
  unfolding run_ops_def by (induction ops arbitrary: c) (simp_all add: keyed_apply_op)

lemma get_run_ops: "dict_get (run_ops ops c) = spec_run ops (dict_get c)"
  unfolding run_ops_def spec_run_def by (induction ops arbitrary: c) (simp_all add: get_apply_op)

subsection \<open>Refreshing twice\<close>

lemma content_update:
  "cache_content (AList.update k v c) = AList.update k (layer_content v) (cache_content c)"
  by (induction c) (auto simp: cache_content_def)

lemma content_dict_set:
  "cache_content c = cache_content c' \<Longrightarrow> layer_content v = layer_content v' \<Longrightarrow>
   cache_content (dict_set k v c) = cache_content (dict_set k v' c')"
  by (simp add: dict_set_def content_update)

lemma content_Nil_iff: "cache_content c = [] \<longleftrightarrow> c = []"
  by (simp add: cache_content_def)

lemma load_shp_clock:
  "load_shp e t p = map_option (\<lambda>d. d\<lparr>loaded_at := t\<rparr>) (load_shp e t' p)"
  by (simp add: load_shp_def Let_def split: option.splits)

lemma content_set_style_clock:
  "layer_content (set_style (d\<lparr>loaded_at := t\<rparr>) s) = layer_content (set_style d s)"
  by (simp add: layer_content_def set_style_def)

lemma refresh_loop_content:
  "cache_content c = cache_content c' \<Longrightarrow>
   cache_content (refresh_loop e clk i shps c) = cache_content (refresh_loop e clk' i shps c')"
proof (induction shps arbitrary: i c c')
  case Nil
  then show ?case by simp
next
  case (Cons shp shps)
  show ?case
  proof (cases "load_shp e (clk' i) shp")
    case None
    then have "load_shp e (clk i) shp = None"
      using load_shp_clock [of e "clk i" shp "clk' i"] by simp
    with None Cons show ?thesis by simp
  next
    case (Some d)
    then have l: "load_shp e (clk i) shp = Some (d\<lparr>loaded_at := clk i\<rparr>)"
      using load_shp_clock [of e "clk i" shp "clk' i"] by simp
    let ?s = "make_style (ltype d) (COLORS ! (i mod length COLORS))"
    have "cache_content (dict_set (name d) (set_style (d\<lparr>loaded_at := clk i\<rparr>) ?s) c) =
          cache_content (dict_set (name d) (set_style d ?s) c')"
      by (rule content_dict_set [OF Cons.prems]) (rule content_set_style_clock)
    then show ?thesis
      using Some l Cons.IH by simp
  qed
qed

lemma samples_loop_content:
  "cache_content c = cache_content c' \<Longrightarrow>
   cache_content (samples_loop clk j ds c) = cache_content (samples_loop clk' j ds c')"
proof (induction ds arbitrary: j c c')
  case Nil
  then show ?case by simp
next
  case (Cons d ds)
  show ?case
    unfolding samples_loop.simps
    by (rule Cons.IH, rule content_dict_set [OF Cons.prems]) (simp add: layer_content_def)
qed

lemma refresh_all_content:
  "cache_content (refresh_all e clk c) = cache_content (refresh_all e clk' c')"
proof -
  let ?shps = "enumerate_shps e"
  let ?c1 = "refresh_loop e clk 0 ?shps []"
  let ?c2 = "refresh_loop e clk' 0 ?shps []"
  have eq: "cache_content ?c1 = cache_content ?c2"
    by (rule refresh_loop_content) simp
  then have nil: "?c1 = [] \<longleftrightarrow> ?c2 = []"
    using content_Nil_iff by metis
  show ?thesis
  proof (cases "?c1 = []")
    case True
    with nil have "?c2 = []" by simp
    with True show ?thesis
      by (simp add: refresh_all_def dict_clear_def load_samples_def Let_def samples_loop_content)
  next
    case False
    with nil have "?c2 \<noteq> []" by simp
    with False eq show ?thesis
      by (simp add: refresh_all_def dict_clear_def Let_def)
  qed
qed

text \<open>
  Claim C2. Over one unchanged environment, a second \<^verbatim>\<open>refresh_all\<close> leaves the cache
  with the same names in the same order and, under each name, the same record in every
  field but the time stamp (type, geometry, bounds, count, fields, path and style with
  its colour), whatever the clock reads and whatever the cache held before.
\<close>

theorem refresh_all_idempotent:
  "cache_content (refresh_all e clk2 (refresh_all e clk1 c)) = cache_content (refresh_all e clk1 c)"
  by (rule refresh_all_content)

subsection \<open>Type detection\<close>

lemma str_contains_iff: "str_contains k n \<longleftrightarrow> sublist k n"
  by (induction n) (simp_all add: sublist_Cons_right)

lemma keyword_loop_find:
  "keyword_loop tbl n = map_option snd (List.find (\<lambda>kv. sublist (fst kv) n) tbl)"
  by (induction tbl) (auto simp: str_contains_iff)

text \<open>
  Claim C5. Keywords come first. When some keyword of \<^verbatim>\<open>NAME_TYPE\<close> occurs in the
  lower-cased layer name, \<^verbatim>\<open>detect_type\<close> returns the type of the first such entry of
  the table, whatever the features are. When none occurs and there is a first feature,
  the result is what \<^verbatim>\<open>GEOM_MAP\<close> gives for its geometry type, polygon when it gives
  nothing. When none occurs and there is no data frame or no feature, the result is
  polygon.
\<close>

theorem detect_type_keyword_first:
  "(List.find (\<lambda>kv. sublist (fst kv) (lower nm)) NAME_TYPE = Some (k, v) \<longrightarrow>
      detect_type nm g = v) \<and>
   (List.find (\<lambda>kv. sublist (fst kv) (lower nm)) NAME_TYPE = None \<and>
    g = Some df \<and> geom_type df = t # ts \<longrightarrow>
      detect_type nm g = (case dict_get GEOM_MAP t of Some v' \<Rightarrow> v' | None \<Rightarrow> Polygon)) \<and>
   (List.find (\<lambda>kv. sublist (fst kv) (lower nm)) NAME_TYPE = None \<and>
    (g = None \<or> (\<exists>df'. g = Some df' \<and> geom_type df' = [])) \<longrightarrow>
      detect_type nm g = Polygon)"
  by (auto simp: detect_type_def keyword_loop_find Let_def)

lemma lower_building: "lower ''Building_outline'' = ''building_outline''"
  by (simp add: lower_def lower_char_def)

lemma lower_misc: "lower ''misc'' = ''misc''"
  by (simp add: lower_def lower_char_def)

lemma find_building:
  "List.find (\<lambda>kv. sublist (fst kv) ''building_outline'') NAME_TYPE = Some (''building'', Polygon)"
  by (simp add: NAME_TYPE_def str_contains_iff [symmetric])

lemma find_misc: "List.find (\<lambda>kv. sublist (fst kv) ''misc'') NAME_TYPE = None"
  by (simp add: NAME_TYPE_def str_contains_iff [symmetric])

theorem detect_type_keyword_first_witness:
  "List.find (\<lambda>kv. sublist (fst kv) (lower ''Building_outline'')) NAME_TYPE
     = Some (''building'', Polygon) \<and>
   geom_type gdf_pts = [''Point'', ''Point''] \<and>
   detect_type ''Building_outline'' (Some gdf_pts) = Polygon \<and>
   List.find (\<lambda>kv. sublist (fst kv) (lower ''misc'')) NAME_TYPE = None \<and>
   detect_type ''misc'' (Some gdf_pts) = Point \<and>
   geom_type gdf_empty = [] \<and>
   detect_type ''misc'' (Some gdf_empty) = Polygon \<and>
   detect_type ''misc'' None = Polygon"
  using detect_type_keyword_first [of "''Building_outline''" "''building''" Polygon "Some gdf_pts"]
    detect_type_keyword_first [of "''misc''" _ _ "Some gdf_pts" gdf_pts "''Point''" "[''Point'']"]
    detect_type_keyword_first [of "''misc''" _ _ "Some gdf_empty"]
    detect_type_keyword_first [of "''misc''" _ _ None]
  by (simp add: lower_building lower_misc find_building find_misc gdf_pts_def gdf_empty_def
      dict_get_def GEOM_MAP_def)

text \<open>
  Claim C10. When no keyword occurs in the lower-cased name and the first feature's
  geometry type is none of the six keys of \<^verbatim>\<open>GEOM_MAP\<close>, the detected type is polygon.
\<close>

theorem detect_type_unknown_geometry:
  assumes "\<forall>kv \<in> set NAME_TYPE. \<not> sublist (fst kv) (lower nm)"
    and "geom_type df = t # ts"
    and "t \<notin> {''Point'', ''MultiPoint'', ''LineString'', ''MultiLineString'',
               ''Polygon'', ''MultiPolygon''}"
  shows "detect_type nm (Some df) = Polygon"
proof -
  have "List.find (\<lambda>kv. sublist (fst kv) (lower nm)) NAME_TYPE = None"
    using assms(1) by (auto simp: find_None_iff)
  moreover have "dict_get GEOM_MAP t = None"
    using assms(3) by (simp add: dict_get_def GEOM_MAP_def)
  ultimately show ?thesis
    using assms(2) by (simp add: detect_type_def keyword_loop_find)
qed

theorem detect_type_unknown_geometry_witness:
  "list_all (\<lambda>kv. \<not> sublist (fst kv) (lower ''misc'')) NAME_TYPE \<and>
   geom_type gdf_coll = [''GeometryCollection''] \<and>
   detect_type ''misc'' (Some gdf_coll) = Polygon"
proof -
  have h1: "\<forall>kv \<in> set NAME_TYPE. \<not> sublist (fst kv) (lower ''misc'')"
    using find_misc by (auto simp: find_None_iff lower_misc)
  have h2: "geom_type gdf_coll = [''GeometryCollection'']"
    by (simp add: gdf_coll_def)
  have h3: "''GeometryCollection'' \<notin> {''Point'', ''MultiPoint'', ''LineString'',
      ''MultiLineString'', ''Polygon'', ''MultiPolygon''}"
    by simp
  have h1': "list_all (\<lambda>kv. \<not> sublist (fst kv) (lower ''misc'')) NAME_TYPE"
    using h1 by (simp add: list_all_iff)
  from h1' h2 detect_type_unknown_geometry [OF h1 h2 h3] show ?thesis
    by blast
qed

subsection \<open>The change watcher\<close>

lemma load_shp_name: "load_shp e now path = Some d \<Longrightarrow> name d = stem path"
  by (auto simp: load_shp_def Let_def split: if_splits option.splits)

lemma fst_reload_tr: "fst (reload_tr e now path c) = reload e now path c"
  by (simp add: reload_tr_def reload_def Let_def split: option.splits)

text \<open>
  Claim C6. When an armed timer for a path runs out, \<^verbatim>\<open>load_shp\<close> is called on that
  path, once. If it returns a record, the cache afterwards holds that record under the
  path's stem (which is the record's name), styled with the colour at index
  (cache size before the write) modulo the palette size. If it fails, the cache
  afterwards has no entry under the path's stem. Entries under other names stay as
  they were in both cases.
\<close>

theorem timer_fire_reloads:
  assumes "dict_get (armed s) t = Some path"
  shows "layer_cache (timer_fire e now t s) = fst (reload_tr e now path (layer_cache s)) \<and>
         loads_of (snd (reload_tr e now path (layer_cache s))) = [path] \<and>
         (load_shp e now path = Some d \<longrightarrow>
            name d = stem path \<and>
            dict_get (layer_cache (timer_fire e now t s)) (stem path)
              = Some (set_style d (make_style (ltype d)
                   (COLORS ! (length (layer_cache s) mod length COLORS)))) \<and>
            (\<forall>n. n \<noteq> stem path \<longrightarrow>
               dict_get (layer_cache (timer_fire e now t s)) n = dict_get (layer_cache s) n)) \<and>
         (load_shp e now path = None \<longrightarrow>
            dict_get (layer_cache (timer_fire e now t s)) (stem path) = None \<and>
            (\<forall>n. n \<noteq> stem path \<longrightarrow>
               dict_get (layer_cache (timer_fire e now t s)) n = dict_get (layer_cache s) n))"
proof -
  have c: "layer_cache (timer_fire e now t s) = reload e now path (layer_cache s)"
    using assms by (simp add: timer_fire_def)
  have l: "loads_of (snd (reload_tr e now path (layer_cache s))) = [path]"
    by (simp add: reload_tr_def Let_def split: option.splits)
  show ?thesis
    unfolding c fst_reload_tr
    using l by (auto simp: reload_def Let_def dict_get_set dict_get_pop load_shp_name)
qed

lemma stem_a: "stem ''data/a.shp'' = ''a''"
  by (simp add: stem_def path_name_def rfind_dot_def)

lemma stem_bad: "stem ''data/bad.shp'' = ''bad''"
  by (simp add: stem_def path_name_def rfind_dot_def)

lemma load_a:
  "load_shp env_one 0 ''data/a.shp'' =
     Some \<lparr>name = ''a'', ltype = Point, geojson = JObj [(''type'', JStr ''FeatureCollection'')],
           bounds = [0, 0, 1, 1], count = 2, field_names = [''id''],
           file_path = Some ''data/a.shp'', loaded_at = 0\<rparr>"
  by (simp add: load_shp_def env_one_def stem_a gdf_pts_def detect_type_def lower_def
      lower_char_def NAME_TYPE_def dict_get_def GEOM_MAP_def)

lemma load_bad: "load_shp env_bad t p = None"
  by (simp add: load_shp_def env_bad_def)

theorem timer_fire_reloads_witness:
  "dict_get (armed ws_one) 0 = Some ''data/a.shp'' \<and>
   dict_get (layer_cache (timer_fire env_one 0 0 ws_one)) ''a''
     = Some \<lparr>name = ''a'', ltype = Point, geojson = JObj [(''type'', JStr ''FeatureCollection'')],
             bounds = [0, 0, 1, 1], count = 2, field_names = [''id''],
             file_path = Some ''data/a.shp'', loaded_at = 0,
             style = make_style Point ''#4FC3F7''\<rparr> \<and>
   dict_get (armed ws_bad) 0 = Some ''data/bad.shp'' \<and>
   dict_get (layer_cache ws_bad) ''bad'' = Some lyr_bad \<and>
   dict_get (layer_cache (timer_fire env_bad 0 0 ws_bad)) ''bad'' = None"
proof -
  have h1: "dict_get (armed ws_one) 0 = Some ''data/a.shp''"
    by (simp add: ws_one_def dict_get_def)
  have h2: "dict_get (armed ws_bad) 0 = Some ''data/bad.shp''"
    by (simp add: ws_bad_def dict_get_def)
  have h3: "dict_get (layer_cache ws_bad) ''bad'' = Some lyr_bad"
    by (simp add: ws_bad_def dict_get_def)
  have c: "COLORS ! (length (layer_cache ws_one) mod length COLORS) = ''#4FC3F7''"
    by (simp add: ws_one_def COLORS_def)
  have a: "dict_get (layer_cache (timer_fire env_one 0 0 ws_one)) ''a''
     = Some \<lparr>name = ''a'', ltype = Point, geojson = JObj [(''type'', JStr ''FeatureCollection'')],
             bounds = [0, 0, 1, 1], count = 2, field_names = [''id''],
             file_path = Some ''data/a.shp'', loaded_at = 0,
             style = make_style Point ''#4FC3F7''\<rparr>"
    using timer_fire_reloads [OF h1, of env_one 0, THEN conjunct2, THEN conjunct2, THEN conjunct1,
        THEN mp, OF load_a]
    by (simp add: stem_a c set_style_def)
  have b: "dict_get (layer_cache (timer_fire env_bad 0 0 ws_bad)) ''bad'' = None"
    using timer_fire_reloads [OF h2, of env_bad 0, THEN conjunct2, THEN conjunct2, THEN conjunct2,
        THEN mp, OF load_bad]
    by (simp add: stem_bad)
  from h1 a h2 h3 b show ?thesis by blast
qed

text \<open>
  Claim C7. A deletion event for a file whose path ends in \<^verbatim>\<open>.shp\<close> pops the entry
  under the path's stem from the cache in the handler itself: the entry is gone
  afterwards, the other entries are untouched, and no timer is created, cancelled or
  consulted (the handler takes no loader either). A deletion event for a directory or
  for a path that does not end in \<^verbatim>\<open>.shp\<close> changes nothing.
\<close>

theorem on_deleted_immediate:
  "(\<not> is_directory ev \<and> endswith (src_path ev) ''.shp'' \<longrightarrow>
      layer_cache (on_deleted ev s) = dict_pop (stem (src_path ev)) (layer_cache s) \<and>
      dict_get (layer_cache (on_deleted ev s)) (stem (src_path ev)) = None \<and>
      (\<forall>n. n \<noteq> stem (src_path ev) \<longrightarrow>
         dict_get (layer_cache (on_deleted ev s)) n = dict_get (layer_cache s) n) \<and>
      timers (on_deleted ev s) = timers s \<and>
      armed (on_deleted ev s) = armed s \<and>
      next_timer (on_deleted ev s) = next_timer s) \<and>
   (is_directory ev \<or> \<not> endswith (src_path ev) ''.shp'' \<longrightarrow> on_deleted ev s = s)"
  by (auto simp: on_deleted_def dict_get_pop)

theorem on_deleted_immediate_witness:
  "\<not> is_directory ev_shp \<and> endswith (src_path ev_shp) ''.shp'' \<and>
   dict_get (layer_cache ws_bad) ''bad'' = Some lyr_bad \<and>
   dict_get (layer_cache (on_deleted ev_shp ws_bad)) ''bad'' = None \<and>
   armed (on_deleted ev_shp ws_bad) = armed ws_bad \<and>
   \<not> endswith (src_path ev_dbf) ''.shp'' \<and>
   on_deleted ev_dbf ws_bad = ws_bad"
proof -
  have h1: "\<not> is_directory ev_shp \<and> endswith (src_path ev_shp) ''.shp''"
    by (simp add: ev_shp_def endswith_def)
  have h2: "\<not> endswith (src_path ev_dbf) ''.shp''"
    by (simp add: ev_dbf_def endswith_def)
  then have h2': "is_directory ev_dbf \<or> \<not> endswith (src_path ev_dbf) ''.shp''"
    by simp
  have h3: "dict_get (layer_cache ws_bad) ''bad'' = Some lyr_bad"
    by (simp add: ws_bad_def dict_get_def)
  have s: "stem (src_path ev_shp) = ''bad''"
    by (simp add: ev_shp_def stem_bad)
  note d = on_deleted_immediate [of ev_shp ws_bad, THEN conjunct1, THEN mp, OF h1]
  have a: "dict_get (layer_cache (on_deleted ev_shp ws_bad)) ''bad'' = None"
    using d [THEN conjunct2, THEN conjunct1] by (simp only: s)
  have b: "armed (on_deleted ev_shp ws_bad) = armed ws_bad"
    using d by blast
  have c: "on_deleted ev_dbf ws_bad = ws_bad"
    using on_deleted_immediate [of ev_dbf ws_bad, THEN conjunct2, THEN mp, OF h2'] .
  from h1 h2 h3 a b c show ?thesis by blast
qed

subsection \<open>The sample layers\<close>

lemma update_fresh: "k \<notin> fst ` set c \<Longrightarrow> AList.update k v c = c @ [(k, v)]"
  by (induction c) auto

lemma samples_loop_append:
  "distinct (map fst c @ map s_name ds) \<Longrightarrow>
   samples_loop clk j ds c =
     c @ map (\<lambda>(k, d). (s_name d, sample_layer (clk k) d)) (List.enumerate j ds)"
proof (induction ds arbitrary: j c)
  case Nil
  then show ?case by simp
next
  case (Cons d ds)
  have fresh: "s_name d \<notin> fst ` set c"
    using Cons.prems by auto
  have step: "dict_set (s_name d) (sample_layer (clk j) d) c = c @ [(s_name d, sample_layer (clk j) d)]"
    using fresh by (simp add: dict_set_def update_fresh)
  have "distinct (map fst (c @ [(s_name d, sample_layer (clk j) d)]) @ map s_name ds)"
    using Cons.prems by auto
  from Cons.IH [OF this, of "Suc j"] step show ?case
    by (simp add: sample_layer_def)
qed

lemma raw_names:
  "map s_name raw =
     [''administrative_boundaries'', ''buildings'', ''land_use'', ''road_network'',
      ''water_supply'', ''sewerage_network'', ''chambers'', ''utilities'']"
  by (simp add: raw_def)

lemma raw_colors:
  "map s_color raw =
     [''#4FC3F7'', ''#FFB74D'', ''#81C784'', ''#90A4AE'', ''#4DD0E1'', ''#A1887F'',
      ''#CE93D8'', ''#F06292'']"
  by (simp add: raw_def)

lemma raw_types:
  "map s_type raw = [Polygon, Polygon, Polygon, Polyline, Polyline, Polyline, Point, Point]"
  by (simp add: raw_def)

lemma length_raw: "length raw = 8"
  using arg_cong [OF raw_names, of length] by simp

lemma load_samples_eq:
  "load_samples clk [] = map (\<lambda>(k, d). (s_name d, sample_layer (clk k) d)) (List.enumerate 0 raw)"
  unfolding load_samples_def
  using samples_loop_append [of "[]" raw clk 0] by (simp add: raw_names)

lemma load_samples_nth:
  assumes "i < length raw"
  shows "load_samples clk [] ! i = (s_name (raw ! i), sample_layer (clk i) (raw ! i))"
  using assms by (simp add: load_samples_eq nth_enumerate_eq)

lemma raw_colors_in_palette: "list_all (\<lambda>c. c \<in> set COLORS) (map s_color raw)"
  by (simp add: raw_colors COLORS_def)

text \<open>
  Claim C8, as amended. \<^verbatim>\<open>_load_samples\<close> installs one record per row of its table, in
  table order, and styles each with \<^verbatim>\<open>make_style\<close> from the row's type and the row's
  own colour, the colour written in the table. That colour is an entry of the palette;
  it is not the palette entry at the row's position.
\<close>

theorem sample_style_from_table:
  assumes "i < length raw"
  shows "length (load_samples clk []) = length raw \<and>
         fst (load_samples clk [] ! i) = s_name (raw ! i) \<and>
         ltype (snd (load_samples clk [] ! i)) = s_type (raw ! i) \<and>
         style (snd (load_samples clk [] ! i)) = make_style (s_type (raw ! i)) (s_color (raw ! i)) \<and>
         s_color (raw ! i) \<in> set COLORS"
proof -
  have "s_color (raw ! i) = map s_color raw ! i"
    using assms by simp
  moreover have "map s_color raw ! i \<in> set COLORS"
    using raw_colors_in_palette assms by (simp add: list_all_length)
  ultimately have "s_color (raw ! i) \<in> set COLORS" by simp
  moreover have "length (load_samples clk []) = length raw"
    by (simp add: load_samples_eq)
  ultimately show ?thesis
    using load_samples_nth [OF assms, of clk] by (simp add: sample_layer_def)
qed

lemma raw_1:
  "s_name (raw ! Suc 0) = ''buildings'' \<and> s_type (raw ! Suc 0) = Polygon \<and>
   s_color (raw ! Suc 0) = ''#FFB74D''"
proof -
  have l: "Suc 0 < length raw" by (simp add: length_raw)
  have "s_name (raw ! Suc 0) = map s_name raw ! Suc 0"
    "s_type (raw ! Suc 0) = map s_type raw ! Suc 0"
    "s_color (raw ! Suc 0) = map s_color raw ! Suc 0"
    using l by simp_all
  then show ?thesis
    by (simp add: raw_names raw_types raw_colors)
qed

theorem sample_style_from_table_witness:
  "(1::nat) < length raw \<and>
   fst (load_samples clk0 [] ! 1) = ''buildings'' \<and>
   ltype (snd (load_samples clk0 [] ! 1)) = Polygon \<and>
   style (snd (load_samples clk0 [] ! 1)) = make_style Polygon ''#FFB74D'' \<and>
   ''#FFB74D'' \<in> set COLORS"
proof -
  have l: "(1::nat) < length raw" by (simp add: length_raw)
  show ?thesis
    using l sample_style_from_table [OF l, of clk0] by (simp add: raw_1 COLORS_def)
qed

text \<open>
  The second sample, \<^verbatim>\<open>buildings\<close>, carries the table's \<^verbatim>\<open>#FFB74D\<close>, while the
  palette has \<^verbatim>\<open>#81C784\<close> at index 1: its style is not the one derived from the
  palette colour of its position.
\<close>

theorem sample_colour_counterexample:
  "fst (load_samples clk0 [] ! 1) = ''buildings'' \<and>
   dict_get (style (snd (load_samples clk0 [] ! 1))) ''color'' = Some (JStr ''#FFB74D'') \<and>
   COLORS ! (1 mod length COLORS) = ''#81C784'' \<and>
   style (snd (load_samples clk0 [] ! 1))
     \<noteq> make_style (ltype (snd (load_samples clk0 [] ! 1))) (COLORS ! (1 mod length COLORS))"
proof -
  have l: "Suc 0 < length raw" by (simp add: length_raw)
  have c: "COLORS ! (1 mod length COLORS) = ''#81C784''"
    by (simp add: COLORS_def)
  show ?thesis
    unfolding c
    by (simp add: load_samples_nth [OF l] raw_1 sample_layer_def make_style_def dict_set_def
        dict_get_def)
qed

subsection \<open>The sample fallback\<close>

lemma load_shp_None_iff: "load_shp e t p = None \<longleftrightarrow> \<not> loadable e p"
  using load_shp_clock [of e t p 0] by (auto simp: loadable_def)

lemma dict_set_not_Nil: "dict_set k v c \<noteq> []"
  by (cases c) (simp_all add: dict_set_def)

lemma refresh_loop_keeps: "c \<noteq> [] \<Longrightarrow> refresh_loop e clk i shps c \<noteq> []"
  by (induction shps arbitrary: i c) (simp_all add: dict_set_not_Nil split: option.splits)

lemma refresh_loop_none:
  "list_all (\<lambda>p. \<not> loadable e p) shps \<Longrightarrow> refresh_loop e clk i shps c = c"
proof (induction shps arbitrary: i)
  case Nil
  then show ?case by simp
next
  case (Cons p ps)
  then have "load_shp e (clk i) p = None"
    by (simp add: load_shp_None_iff)
  with Cons show ?case by simp
qed

lemma refresh_loop_some:
  "\<not> list_all (\<lambda>p. \<not> loadable e p) shps \<Longrightarrow> refresh_loop e clk i shps c \<noteq> []"
proof (induction shps arbitrary: i c)
  case Nil
  then show ?case by simp
next
  case (Cons p ps)
  show ?case
  proof (cases "load_shp e (clk i) p")
    case None
    then have "\<not> loadable e p" by (simp add: load_shp_None_iff)
    with Cons.prems have "\<not> list_all (\<lambda>p. \<not> loadable e p) ps" by simp
    from Cons.IH [OF this] None show ?thesis by simp
  next
    case (Some d)
    then show ?thesis
      by (simp add: refresh_loop_keeps dict_set_not_Nil)
  qed
qed

lemma load_shp_file_path: "load_shp e t p = Some d \<Longrightarrow> file_path d = Some p"
  by (auto simp: load_shp_def Let_def split: if_splits option.splits)

lemma refresh_loop_file_path:
  "list_all (\<lambda>kv. file_path (snd kv) \<noteq> None) c \<Longrightarrow>
   list_all (\<lambda>kv. file_path (snd kv) \<noteq> None) (refresh_loop e clk i shps c)"
proof (induction shps arbitrary: i c)
  case Nil
  then show ?case by simp
next
  case (Cons p ps)
  show ?case
  proof (cases "load_shp e (clk i) p")
    case None
    with Cons show ?thesis by simp
  next
    case (Some d)
    let ?v = "set_style d (make_style (ltype d) (COLORS ! (i mod length COLORS)))"
    have "file_path ?v \<noteq> None"
      using load_shp_file_path [OF Some] by (simp add: set_style_def)
    then have "list_all (\<lambda>kv. file_path (snd kv) \<noteq> None) (dict_set (name d) ?v c)"
      unfolding dict_set_def using Cons.prems by (intro list_all_update) simp_all
    from Cons.IH [OF this] Some show ?thesis by simp
  qed
qed

lemma map_snd_enumerate': "map (\<lambda>x. f (snd x)) (List.enumerate n xs) = map f xs"
  by (induction xs arbitrary: n) simp_all

lemma load_samples_keys: "map fst (load_samples clk []) = map s_name raw"
  by (simp add: load_samples_eq case_prod_beta comp_def map_snd_enumerate')

lemma load_samples_file_path:
  "list_all (\<lambda>v. file_path v = None) (snapshotAll (load_samples clk []))"
  by (simp add: load_samples_eq snapshotAll_def dict_values_def list_all_iff sample_layer_def
      case_prod_beta)

text \<open>
  Claim C3, as amended. \<^verbatim>\<open>refresh_all\<close> falls back to the samples exactly when the
  cache is empty after its loop, that is when none of the enumerated paths loads. Then
  the cache is what \<^verbatim>\<open>_load_samples\<close> builds from nothing: the sample names, every
  record without a file path. An empty enumeration is one such case. When some
  enumerated path loads, the cache is the loop's result and every record in it has a
  file path, so no sample record is made.
\<close>

theorem sample_fallback_when_nothing_loads:
  "(list_all (\<lambda>p. \<not> loadable e p) (enumerate_shps e) \<longrightarrow>
      refresh_all e clk c = load_samples (\<lambda>j. clk (length (enumerate_shps e) + j)) [] \<and>
      map fst (refresh_all e clk c) = map s_name raw \<and>
      list_all (\<lambda>v. file_path v = None) (snapshotAll (refresh_all e clk c))) \<and>
   (enumerate_shps e = [] \<longrightarrow> refresh_all e clk c = load_samples clk []) \<and>
   (\<not> list_all (\<lambda>p. \<not> loadable e p) (enumerate_shps e) \<longrightarrow>
      refresh_all e clk c = refresh_loop e clk 0 (enumerate_shps e) [] \<and>
      list_all (\<lambda>v. file_path v \<noteq> None) (snapshotAll (refresh_all e clk c)))"
proof (intro conjI impI)
  assume n: "list_all (\<lambda>p. \<not> loadable e p) (enumerate_shps e)"
  show r: "refresh_all e clk c = load_samples (\<lambda>j. clk (length (enumerate_shps e) + j)) []"
    by (simp add: refresh_all_def dict_clear_def Let_def refresh_loop_none [OF n])
  show "map fst (refresh_all e clk c) = map s_name raw"
    unfolding r by (rule load_samples_keys)
  show "list_all (\<lambda>v. file_path v = None) (snapshotAll (refresh_all e clk c))"
    unfolding r by (rule load_samples_file_path)
next
  assume "enumerate_shps e = []"
  then show "refresh_all e clk c = load_samples clk []"
    by (simp add: refresh_all_def dict_clear_def Let_def)
next
  assume s: "\<not> list_all (\<lambda>p. \<not> loadable e p) (enumerate_shps e)"
  show r: "refresh_all e clk c = refresh_loop e clk 0 (enumerate_shps e) []"
    using refresh_loop_some [OF s, of clk 0 "[]"]
    by (simp add: refresh_all_def dict_clear_def Let_def)
  have "list_all (\<lambda>kv. file_path (snd kv) \<noteq> None) (refresh_loop e clk 0 (enumerate_shps e) [])"
    by (rule refresh_loop_file_path) simp
  then show "list_all (\<lambda>v. file_path v \<noteq> None) (snapshotAll (refresh_all e clk c))"
    unfolding r by (simp add: snapshotAll_def dict_values_def list_all_iff)
qed

lemma enumerate_one: "enumerate_shps env_one = [''data/a.shp'', ''data/a.shp'']"
  by (simp add: enumerate_shps_def glob_recursive_def glob_top_def env_one_def shp_match_def
      hidden_def endswith_def join_path_def)

lemma enumerate_bad: "enumerate_shps env_bad = [''data/bad.shp'', ''data/bad.shp'']"
  by (simp add: enumerate_shps_def glob_recursive_def glob_top_def env_bad_def shp_match_def
      hidden_def endswith_def join_path_def)

lemma loadable_a: "loadable env_one ''data/a.shp''"
  by (simp add: loadable_def load_a)

lemma not_loadable_bad: "\<not> loadable env_bad p"
  by (simp add: loadable_def load_bad)

theorem sample_fallback_when_nothing_loads_witness:
  "list_all (\<lambda>p. \<not> loadable env_bad p) (enumerate_shps env_bad) \<and>
   map fst (refresh_all env_bad clk0 [(''bad'', lyr_bad)]) = map s_name raw \<and>
   \<not> list_all (\<lambda>p. \<not> loadable env_one p) (enumerate_shps env_one) \<and>
   refresh_all env_one clk0 [] = refresh_loop env_one clk0 0 (enumerate_shps env_one) [] \<and>
   list_all (\<lambda>v. file_path v \<noteq> None) (snapshotAll (refresh_all env_one clk0 []))"
proof -
  have h1: "list_all (\<lambda>p. \<not> loadable env_bad p) (enumerate_shps env_bad)"
    by (simp add: enumerate_bad not_loadable_bad)
  have h2: "\<not> list_all (\<lambda>p. \<not> loadable env_one p) (enumerate_shps env_one)"
    by (simp add: enumerate_one loadable_a)
  note b = sample_fallback_when_nothing_loads [of env_bad clk0 "[(''bad'', lyr_bad)]",
      THEN conjunct1, THEN mp, OF h1]
  note a = sample_fallback_when_nothing_loads [of env_one clk0 "[]",
      THEN conjunct2, THEN conjunct2, THEN mp, OF h2]
  from h1 h2 a b show ?thesis by blast
qed

text \<open>
  A data directory with the one file \<^verbatim>\<open>bad.shp\<close>, which does not parse: the file is
  there and is enumerated, and the refresh installs the eight samples all the same.
\<close>

theorem sample_fallback_counterexample:
  "dir_files env_bad = [[''bad.shp'']] \<and>
   enumerate_shps env_bad = [''data/bad.shp'', ''data/bad.shp''] \<and>
   map fst (refresh_all env_bad clk0 []) =
     [''administrative_boundaries'', ''buildings'', ''land_use'', ''road_network'',
      ''water_supply'', ''sewerage_network'', ''chambers'', ''utilities''] \<and>
   list_all (\<lambda>v. file_path v = None) (snapshotAll (refresh_all env_bad clk0 []))"
proof -
  have n: "list_all (\<lambda>p. \<not> loadable env_bad p) (enumerate_shps env_bad)"
    by (simp add: enumerate_bad not_loadable_bad)
  have r: "refresh_all env_bad clk0 [] = load_samples (\<lambda>j. clk0 (length (enumerate_shps env_bad) + j)) []"
    by (simp add: refresh_all_def dict_clear_def Let_def refresh_loop_none [OF n])
  have d: "dir_files env_bad = [[''bad.shp'']]"
    by (simp add: env_bad_def)
  have k: "map fst (refresh_all env_bad clk0 []) =
     [''administrative_boundaries'', ''buildings'', ''land_use'', ''road_network'',
      ''water_supply'', ''sewerage_network'', ''chambers'', ''utilities'']"
    unfolding r by (simp add: load_samples_keys raw_names)
  have f: "list_all (\<lambda>v. file_path v = None) (snapshotAll (refresh_all env_bad clk0 []))"
    unfolding r by (rule load_samples_file_path)
  from d enumerate_bad k f show ?thesis by blast
qed

subsection \<open>The lock during a refresh\<close>

lemma loads_of_append: "loads_of (xs @ ys) = loads_of xs @ loads_of ys"
  by (induction xs rule: loads_of.induct) simp_all

lemma fst_refresh_loop_tr:
  "fst (refresh_loop_tr e clk i shps (c, tr)) = refresh_loop e clk i shps c"
  by (induction shps arbitrary: i c tr) (simp_all split: option.splits)

lemma loads_refresh_loop_tr:
  "loads_of (snd (refresh_loop_tr e clk i shps (c, tr))) = loads_of tr @ shps"
  by (induction shps arbitrary: i c tr) (simp_all add: loads_of_append split: option.splits)

lemma refresh_loop_tr_extends:
  "\<exists>rest. snd (refresh_loop_tr e clk i shps (c, tr)) = tr @ rest"
proof (induction shps arbitrary: i c tr)
  case Nil
  then show ?case by simp
next
  case (Cons p ps)
  show ?case
  proof (cases "load_shp e (clk i) p")
    case None
    from Cons [of "Suc i" c "tr @ [Load p]"] None show ?thesis by auto
  next
    case (Some d)
    let ?c = "dict_set (name d)
        (set_style d (make_style (ltype d) (COLORS ! (i mod length COLORS)))) c"
    from Cons [of "Suc i" ?c "tr @ [Load p, Store (name d)]"] Some show ?thesis by auto
  qed
qed

lemma refresh_loop_tr_first:
  "\<exists>rest. snd (refresh_loop_tr e clk i (p # ps) (c, tr)) = tr @ Load p # rest"
proof (cases "load_shp e (clk i) p")
  case None
  with refresh_loop_tr_extends [of e clk "Suc i" ps c "tr @ [Load p]"] show ?thesis by auto
next
  case (Some d)
  let ?c = "dict_set (name d)
      (set_style d (make_style (ltype d) (COLORS ! (i mod length COLORS)))) c"
  from refresh_loop_tr_extends [of e clk "Suc i" ps ?c "tr @ [Load p, Store (name d)]"] Some
  show ?thesis by auto
qed

lemma fst_refresh_all_tr: "fst (refresh_all_tr e clk c) = refresh_all e clk c"
  by (simp add: refresh_all_tr_def refresh_all_def Let_def load_samples_tr_def
      fst_refresh_loop_tr)

lemma loads_samples: "loads_of (map (\<lambda>d. Store (s_name d)) ds) = []"
  by (induction ds) simp_all

lemma loads_refresh_all_tr: "loads_of (snd (refresh_all_tr e clk c)) = enumerate_shps e"
  by (simp add: refresh_all_tr_def Let_def load_samples_tr_def loads_of_append
      loads_refresh_loop_tr loads_samples)

lemma locked_load: "load_while_locked True (Load p # rest)"
  by simp

lemma load_while_locked_prefix:
  "load_while_locked h xs \<Longrightarrow> load_while_locked h (xs @ ys)"
  by (induction h xs rule: load_while_locked.induct) auto

lemma refresh_all_tr_extends:
  "\<exists>ys. snd (refresh_all_tr e clk c) =
     snd (refresh_loop_tr e clk 0 (enumerate_shps e) (dict_clear c, [Acquire, Clear])) @ ys"
  by (simp add: refresh_all_tr_def Let_def load_samples_tr_def)

lemma refresh_all_tr_locked:
  assumes "enumerate_shps e \<noteq> []"
  shows "load_while_locked False (snd (refresh_all_tr e clk c))"
proof -
  define T where "T = snd (refresh_loop_tr e clk 0 (enumerate_shps e) (dict_clear c, [Acquire, Clear]))"
  obtain p ps where ps: "enumerate_shps e = p # ps"
    using assms by (cases "enumerate_shps e") auto
  obtain rest where "T = [Acquire, Clear] @ Load p # rest"
    unfolding T_def ps using refresh_loop_tr_first by blast
  then have l: "load_while_locked False T"
    by simp
  obtain ys where "snd (refresh_all_tr e clk c) = T @ ys"
    unfolding T_def using refresh_all_tr_extends by blast
  with l show ?thesis
    by (simp add: load_while_locked_prefix)
qed

lemma reload_tr_unlocked: "\<not> load_while_locked False (snd (reload_tr e now path c))"
  by (simp add: reload_tr_def Let_def split: option.splits)

lemma trace_one:
  "snd (refresh_all_tr env_one clk0 []) =
     [Acquire, Clear, Load ''data/a.shp'', Store ''a'', Load ''data/a.shp'', Store ''a'', Release]"
  by (simp add: refresh_all_tr_def Let_def enumerate_one clk0_def load_a dict_clear_def
      dict_set_def)

text \<open>
  Claim C9. It asks that no \<^verbatim>\<open>load_shp\<close> call runs while \<^verbatim>\<open>cache_lock\<close> is held.
  On a data directory with the single file \<^verbatim>\<open>a.shp\<close>, \<^verbatim>\<open>refresh_all\<close> takes the
  lock, clears the cache and then loads inside the lock, releasing it only after the
  last load; \<^verbatim>\<open>_reload\<close> on the same file loads first and takes the lock afterwards.
\<close>

theorem refresh_all_loads_inside_lock:
  "dir_files env_one = [[''a.shp'']] \<and>
   snd (refresh_all_tr env_one clk0 []) =
     [Acquire, Clear, Load ''data/a.shp'', Store ''a'', Load ''data/a.shp'', Store ''a'', Release] \<and>
   load_while_locked False (snd (refresh_all_tr env_one clk0 [])) \<and>
   snd (reload_tr env_one 0 ''data/a.shp'' []) = [Load ''data/a.shp'', Acquire, Store ''a'', Release] \<and>
   \<not> load_while_locked False (snd (reload_tr env_one 0 ''data/a.shp'' []))"
proof -
  have d: "dir_files env_one = [[''a.shp'']]"
    by (simp add: env_one_def)
  have l: "load_while_locked False (snd (refresh_all_tr env_one clk0 []))"
    unfolding trace_one by simp
  have r: "snd (reload_tr env_one 0 ''data/a.shp'' []) = [Load ''data/a.shp'', Acquire, Store ''a'', Release]"
    by (simp add: reload_tr_def load_a stem_a Let_def)
  from d trace_one l r reload_tr_unlocked show ?thesis by blast
qed

subsection \<open>Enumeration and palette indices\<close>

lemma glob_top_subset: "set (glob_top e) \<subseteq> set (glob_recursive e)"
proof -
  have "length f = 1 \<and> shp_match (last f) \<Longrightarrow>
        f \<noteq> [] \<and> list_all (\<lambda>c. \<not> hidden c) (butlast f) \<and> shp_match (last f)" for f
    by (cases f) auto
  then show ?thesis
    unfolding glob_top_def glob_recursive_def by auto
qed

lemma count_list_pos: "x \<in> set xs \<Longrightarrow> 1 \<le> count_list xs x"
  using count_list_0_iff [of xs x] by (cases "count_list xs x") auto

lemma enumerated_twice:
  assumes "p \<in> set (glob_top e)"
  shows "2 \<le> count_list (enumerate_shps e) p"
proof -
  have "p \<in> set (glob_recursive e)"
    using assms glob_top_subset by blast
  then have "1 \<le> count_list (glob_recursive e) p"
    by (rule count_list_pos)
  moreover have "1 \<le> count_list (glob_top e) p"
    using assms by (rule count_list_pos)
  ultimately show ?thesis
    by (simp add: enumerate_shps_def)
qed

lemma refresh_loop_distinct:
  "distinct (map fst c) \<Longrightarrow> distinct (map fst (refresh_loop e clk i shps c))"
  by (induction shps arbitrary: i c) (simp_all add: distinct_dict_set split: option.splits)

lemma refresh_all_distinct: "distinct (map fst (refresh_all e clk c))"
proof -
  have "distinct (map fst (load_samples k []))" for k
    by (simp add: load_samples_keys raw_names)
  moreover have "distinct (map fst (refresh_loop e clk 0 (enumerate_shps e) []))"
    by (rule refresh_loop_distinct) simp
  ultimately show ?thesis
    by (simp add: refresh_all_def Let_def dict_clear_def)
qed

lemma refresh_loop_other:
  "list_all (\<lambda>p. \<not> loadable e p \<or> stem p \<noteq> n) shps \<Longrightarrow>
   dict_get (refresh_loop e clk i shps c) n = dict_get c n"
proof (induction shps arbitrary: i c)
  case Nil
  then show ?case by simp
next
  case (Cons p ps)
  then have rest: "list_all (\<lambda>p. \<not> loadable e p \<or> stem p \<noteq> n) ps"
    and here: "\<not> loadable e p \<or> stem p \<noteq> n"
    by simp_all
  show ?case
  proof (cases "load_shp e (clk i) p")
    case None
    with Cons.IH [OF rest] show ?thesis by simp
  next
    case (Some d)
    then have "loadable e p"
      using load_shp_None_iff [of e "clk i" p] by auto
    with here have "stem p \<noteq> n" by simp
    then have "name d \<noteq> n"
      using load_shp_name [OF Some] by simp
    with Cons.IH [OF rest] Some show ?thesis
      by (simp add: dict_get_set)
  qed
qed

lemma refresh_loop_last:
  assumes "i < length shps"
    and "load_shp e (clk (i0 + i)) (shps ! i) = Some d"
    and "\<forall>j. i < j \<and> j < length shps \<longrightarrow>
           \<not> loadable e (shps ! j) \<or> stem (shps ! j) \<noteq> stem (shps ! i)"
  shows "dict_get (refresh_loop e clk i0 shps c) (stem (shps ! i)) =
           Some (set_style d (make_style (ltype d) (COLORS ! ((i0 + i) mod length COLORS))))"
  using assms
proof (induction shps arbitrary: i i0 c)
  case Nil
  then show ?case by simp
next
  case (Cons p ps)
  show ?case
  proof (cases i)
    case 0
    with Cons.prems have l: "load_shp e (clk i0) p = Some d"
      by simp
    have "\<not> loadable e q \<or> stem q \<noteq> stem p" if "q \<in> set ps" for q
    proof -
      from that obtain k where k: "k < length ps" "ps ! k = q"
        by (auto simp: in_set_conv_nth)
      with Cons.prems(3) [rule_format, of "Suc k"] 0 show ?thesis
        by simp
    qed
    then have "list_all (\<lambda>q. \<not> loadable e q \<or> stem q \<noteq> stem p) ps"
      by (simp add: list_all_iff)
    from refresh_loop_other [OF this] l 0 show ?thesis
      by (simp add: dict_get_set load_shp_name [OF l])
  next
    case (Suc i')
    obtain c' where step: "refresh_loop e clk i0 (p # ps) c = refresh_loop e clk (Suc i0) ps c'"
      by (cases "load_shp e (clk i0) p") simp_all
    have a: "i' < length ps"
      using Cons.prems(1) Suc by simp
    have b: "load_shp e (clk (Suc i0 + i')) (ps ! i') = Some d"
      using Cons.prems(2) Suc by simp
    have c: "\<forall>j. i' < j \<and> j < length ps \<longrightarrow>
           \<not> loadable e (ps ! j) \<or> stem (ps ! j) \<noteq> stem (ps ! i')"
    proof (intro allI impI)
      fix j
      assume "i' < j \<and> j < length ps"
      with Cons.prems(3) [rule_format, of "Suc j"] Suc
      show "\<not> loadable e (ps ! j) \<or> stem (ps ! j) \<noteq> stem (ps ! i')"
        by simp
    qed
    from Cons.IH [OF a b c, of c'] step Suc show ?thesis
      by simp
  qed
qed

text \<open>
  Claim C4, as amended. The enumeration is the result of the recursive pattern followed
  by the result of the top-level pattern, with nothing removed: every path the
  top-level pattern finds is found by the recursive pattern too, so it stands at least
  twice in the enumeration. \<^verbatim>\<open>refresh_all\<close> calls \<^verbatim>\<open>load_shp\<close> once for every position
  of the enumeration, in order, and each position has its own palette index. The cache
  still has every name once: the entry of a name is the record loaded at the last
  position where that name loads, styled with the colour at that position's index
  modulo the palette size.
\<close>

theorem enumeration_keeps_duplicates:
  "set (glob_top e) \<subseteq> set (glob_recursive e) \<and>
   (p \<in> set (glob_top e) \<longrightarrow> 2 \<le> count_list (enumerate_shps e) p) \<and>
   fst (refresh_all_tr e clk c) = refresh_all e clk c \<and>
   loads_of (snd (refresh_all_tr e clk c)) = enumerate_shps e \<and>
   distinct (map fst (refresh_all e clk c)) \<and>
   (i < length (enumerate_shps e) \<and>
    load_shp e (clk i) (enumerate_shps e ! i) = Some d \<and>
    (\<forall>j. i < j \<and> j < length (enumerate_shps e) \<longrightarrow>
       \<not> loadable e (enumerate_shps e ! j) \<or>
       stem (enumerate_shps e ! j) \<noteq> stem (enumerate_shps e ! i)) \<longrightarrow>
      dict_get (refresh_all e clk c) (stem (enumerate_shps e ! i)) =
        Some (set_style d (make_style (ltype d) (COLORS ! (i mod length COLORS)))))"
proof -
  have last: "dict_get (refresh_all e clk c) (stem (enumerate_shps e ! i)) =
        Some (set_style d (make_style (ltype d) (COLORS ! (i mod length COLORS))))"
    if i: "i < length (enumerate_shps e)"
      and l: "load_shp e (clk i) (enumerate_shps e ! i) = Some d"
      and later: "\<forall>j. i < j \<and> j < length (enumerate_shps e) \<longrightarrow>
         \<not> loadable e (enumerate_shps e ! j) \<or>
         stem (enumerate_shps e ! j) \<noteq> stem (enumerate_shps e ! i)"
  proof -
    have "loadable e (enumerate_shps e ! i)"
      using l load_shp_None_iff [of e "clk i" "enumerate_shps e ! i"] by auto
    then have "\<not> list_all (\<lambda>p. \<not> loadable e p) (enumerate_shps e)"
      using i by (auto simp: list_all_length)
    then have "refresh_loop e clk 0 (enumerate_shps e) [] \<noteq> []"
      by (rule refresh_loop_some)
    then have r: "refresh_all e clk c = refresh_loop e clk 0 (enumerate_shps e) []"
      by (simp add: refresh_all_def dict_clear_def Let_def)
    from refresh_loop_last [of i "enumerate_shps e" e clk 0 d "[]"] i l later
    show ?thesis
      unfolding r by simp
  qed
  from glob_top_subset enumerated_twice fst_refresh_all_tr loads_refresh_all_tr
    refresh_all_distinct last
  show ?thesis by blast
qed

lemma glob_top_one: "glob_top env_one = [''data/a.shp'']"
  by (simp add: glob_top_def env_one_def shp_match_def hidden_def endswith_def join_path_def)

theorem enumeration_keeps_duplicates_witness:
  "''data/a.shp'' \<in> set (glob_top env_one) \<and>
   2 \<le> count_list (enumerate_shps env_one) ''data/a.shp'' \<and>
   (1::nat) < length (enumerate_shps env_one) \<and>
   enumerate_shps env_one ! 1 = ''data/a.shp'' \<and>
   dict_get (refresh_all env_one clk0 []) ''a'' =
     Some \<lparr>name = ''a'', ltype = Point, geojson = JObj [(''type'', JStr ''FeatureCollection'')],
           bounds = [0, 0, 1, 1], count = 2, field_names = [''id''],
           file_path = Some ''data/a.shp'', loaded_at = 0,
           style = make_style Point ''#81C784''\<rparr>"
proof -
  have h1: "''data/a.shp'' \<in> set (glob_top env_one)"
    by (simp add: glob_top_one)
  have h2: "(1::nat) < length (enumerate_shps env_one)"
    by (simp add: enumerate_one)
  have n: "enumerate_shps env_one ! 1 = ''data/a.shp''"
    by (simp add: enumerate_one)
  have h3: "load_shp env_one (clk0 1) (enumerate_shps env_one ! 1) =
     Some \<lparr>name = ''a'', ltype = Point, geojson = JObj [(''type'', JStr ''FeatureCollection'')],
           bounds = [0, 0, 1, 1], count = 2, field_names = [''id''],
           file_path = Some ''data/a.shp'', loaded_at = 0\<rparr>"
    unfolding n by (simp add: clk0_def load_a)
  have h4: "\<forall>j. 1 < j \<and> j < length (enumerate_shps env_one) \<longrightarrow>
       \<not> loadable env_one (enumerate_shps env_one ! j) \<or>
       stem (enumerate_shps env_one ! j) \<noteq> stem (enumerate_shps env_one ! 1)"
    by (auto simp: enumerate_one)
  have c: "COLORS ! (1 mod length COLORS) = ''#81C784''"
    by (simp add: COLORS_def)
  note t = enumeration_keeps_duplicates [of env_one "''data/a.shp''" clk0 "[]" 1]
  have a: "2 \<le> count_list (enumerate_shps env_one) ''data/a.shp''"
    using t [THEN conjunct2, THEN conjunct1, THEN mp, OF h1] .
  have b: "dict_get (refresh_all env_one clk0 []) ''a'' =
     Some \<lparr>name = ''a'', ltype = Point, geojson = JObj [(''type'', JStr ''FeatureCollection'')],
           bounds = [0, 0, 1, 1], count = 2, field_names = [''id''],
           file_path = Some ''data/a.shp'', loaded_at = 0,
           style = make_style Point ''#81C784''\<rparr>"
    using t [THEN conjunct2, THEN conjunct2, THEN conjunct2, THEN conjunct2, THEN conjunct2,
        THEN mp, OF conjI [OF h2 conjI [OF h3 h4]]]
    unfolding n c by (simp add: stem_a set_style_def)
  from h1 a h2 n b show ?thesis by blast
qed

text \<open>
  A data directory with the one file \<^verbatim>\<open>a.shp\<close>: the enumeration lists its path twice,
  \<^verbatim>\<open>load_shp\<close> is called on it twice, and the cached layer has the colour of palette
  index 1, not 0.
\<close>

theorem enumeration_duplicates_counterexample:
  "dir_files env_one = [[''a.shp'']] \<and>
   enumerate_shps env_one = [''data/a.shp'', ''data/a.shp''] \<and>
   \<not> distinct (enumerate_shps env_one) \<and>
   loads_of (snd (refresh_all_tr env_one clk0 [])) = [''data/a.shp'', ''data/a.shp''] \<and>
   map (\<lambda>kv. (fst kv, style (snd kv))) (fst (refresh_all_tr env_one clk0 [])) =
     [(''a'', make_style Point ''#81C784'')] \<and>
   COLORS ! 0 = ''#4FC3F7'' \<and> COLORS ! 1 = ''#81C784''"
proof -
  have d: "dir_files env_one = [[''a.shp'']]"
    by (simp add: env_one_def)
  have n: "\<not> distinct (enumerate_shps env_one)"
    by (simp add: enumerate_one)
  have l: "loads_of (snd (refresh_all_tr env_one clk0 [])) = [''data/a.shp'', ''data/a.shp'']"
    unfolding trace_one by simp
  have s: "map (\<lambda>kv. (fst kv, style (snd kv))) (fst (refresh_all_tr env_one clk0 [])) =
     [(''a'', make_style Point ''#81C784'')]"
    by (simp add: refresh_all_tr_def Let_def enumerate_one clk0_def load_a dict_clear_def
        dict_set_def set_style_def COLORS_def)
  have c: "COLORS ! 0 = ''#4FC3F7'' \<and> COLORS ! 1 = ''#81C784''"
    by (simp add: COLORS_def)
  from d enumerate_one n l s c show ?thesis by blast
qed

subsection \<open>The writers as cache operations\<close>

lemma name_set_style: "name (set_style d s) = name d"
  by (simp add: set_style_def)

lemma reload_as_op:
  "reload e now path c =
     apply_op (case load_shp e now path of
                 Some d \<Rightarrow> Upsert (set_style d (make_style (ltype d)
                             (COLORS ! (length c mod length COLORS))))
               | None \<Rightarrow> Remove (stem path)) c"
  by (simp add: reload_def Let_def upsert_def name_set_style load_shp_name split: option.splits)

lemma debounce_cache: "layer_cache (debounce path s) = layer_cache s"
  by (simp add: debounce_def Let_def)

lemma refresh_loop_as_fold:
  "refresh_loop e clk i shps c = fold upsert (loaded_records e clk i shps) c"
  by (induction shps arbitrary: i c) (simp_all add: upsert_def name_set_style split: option.splits)

lemma samples_loop_as_fold:
  "samples_loop clk j ds c =
     fold upsert (map (\<lambda>(k, d). sample_layer (clk k) d) (List.enumerate j ds)) c"
  by (induction ds arbitrary: j c) (simp_all add: upsert_def sample_layer_def)

lemma load_samples_as_fold: "load_samples clk c = fold upsert (sample_records clk) c"
  by (simp add: load_samples_def sample_records_def samples_loop_as_fold)

lemma upsert_not_Nil: "upsert r c \<noteq> []"
  by (simp add: upsert_def dict_set_not_Nil)

lemma fold_upsert_keeps: "c \<noteq> [] \<Longrightarrow> fold upsert rs c \<noteq> []"
  by (induction rs arbitrary: c) (simp_all add: upsert_not_Nil)

lemma fold_upsert_Nil_iff: "fold upsert rs [] = [] \<longleftrightarrow> rs = []"
  by (cases rs) (simp_all add: fold_upsert_keeps upsert_not_Nil)

lemma fold_apply_upserts: "fold apply_op (map Upsert rs) c = fold upsert rs c"
  by (induction rs arbitrary: c) simp_all

lemma refresh_all_as_ops:
  "refresh_all e clk c = fold apply_op (call_ops (Refresh e clk) s) c"
proof -
  let ?shps = "enumerate_shps e"
  let ?rs = "loaded_records e clk 0 ?shps"
  have loop: "refresh_loop e clk 0 ?shps [] = fold upsert ?rs []"
    by (rule refresh_loop_as_fold)
  show ?thesis
  proof (cases "?rs = []")
    case True
    then show ?thesis
      by (simp add: refresh_all_def Let_def dict_clear_def loop load_samples_as_fold
          fold_apply_upserts)
  next
    case False
    then have "fold upsert ?rs [] \<noteq> []"
      by (simp add: fold_upsert_Nil_iff)
    with False show ?thesis
      by (simp add: refresh_all_def Let_def dict_clear_def loop)
  qed
qed

lemma step_as_ops: "layer_cache (step x s) = fold apply_op (call_ops x s) (layer_cache s)"
proof (cases x)
  case (Created ev)
  then show ?thesis by (simp add: on_created_def debounce_cache)
next
  case (Modified ev)
  then show ?thesis by (simp add: on_modified_def debounce_cache)
next
  case (Deleted ev)
  then show ?thesis by (simp add: on_deleted_def)
next
  case (TimerFires e now t)
  then show ?thesis
    by (simp add: timer_fire_def reload_as_op split: option.splits)
next
  case (Refresh e clk)
  then show ?thesis
    using refresh_all_as_ops [of e clk "layer_cache s" s] by simp
qed

lemma run_calls_as_ops:
  "layer_cache (run_calls cs s) = run_ops (issued cs s) (layer_cache s)"
  unfolding run_calls_def run_ops_def
  by (induction cs arbitrary: s) (simp_all add: step_as_ops)

text \<open>
  Claim C1. Whatever sequence of callbacks, timer expiries and refreshes the module runs
  from its initial state, the cache it ends with is the one obtained by applying, in
  call order, the upserts, removals and replacements those calls issue; the same
  sequence leaves exactly that content in the specification's mapping. Looking a name up
  gives the same answer, the snapshot lists each record of that mapping and nothing
  else, no name occurs twice in it, and every entry stands under its own record's name.
  The same holds for an arbitrary sequence of the three operations run on the empty
  cache, and a record that was just upserted is found whole under its name.
\<close>

theorem cache_ops_snapshot:
  "layer_cache (run_calls cs ws_init) = run_ops (issued cs ws_init) [] \<and>
   dict_get (layer_cache (run_calls cs ws_init)) = spec_run (issued cs ws_init) Map.empty \<and>
   distinct (map name (snapshotAll (layer_cache (run_calls cs ws_init)))) \<and>
   set (snapshotAll (layer_cache (run_calls cs ws_init)))
     = ran (spec_run (issued cs ws_init) Map.empty) \<and>
   map fst (layer_cache (run_calls cs ws_init))
     = map name (snapshotAll (layer_cache (run_calls cs ws_init))) \<and>
   dict_get (run_ops ops []) = spec_run ops Map.empty \<and>
   distinct (map name (snapshotAll (run_ops ops []))) \<and>
   set (snapshotAll (run_ops ops [])) = ran (spec_run ops Map.empty) \<and>
   map fst (run_ops ops []) = map name (snapshotAll (run_ops ops [])) \<and>
   dict_get (run_ops (ops @ [Upsert r]) []) (name r) = Some r"
proof -
  have ops: "dict_get (run_ops os []) = spec_run os Map.empty \<and>
      distinct (map name (snapshotAll (run_ops os []))) \<and>
      set (snapshotAll (run_ops os [])) = ran (spec_run os Map.empty) \<and>
      map fst (run_ops os []) = map name (snapshotAll (run_ops os []))" for os
  proof -
    let ?c = "run_ops os []"
    have k: "keyed_by_name ?c"
      by (rule keyed_run_ops) (rule keyed_Nil)
    have g: "dict_get ?c = spec_run os Map.empty"
      using get_run_ops [of os "[]"] by (simp add: dict_get_Nil)
    have names: "map fst ?c = map name (snapshotAll ?c)"
      using k by (simp add: keyed_by_name_def snapshotAll_def dict_values_def list_all_iff)
    have d: "distinct (map name (snapshotAll ?c))"
      using k names by (simp add: keyed_by_name_def)
    have "ran (map_of ?c) = snd ` set ?c"
      using k by (simp add: keyed_by_name_def ran_distinct)
    moreover have "map_of ?c = spec_run os Map.empty"
      using g unfolding dict_get_eq .
    ultimately have r: "set (snapshotAll ?c) = ran (spec_run os Map.empty)"
      by (simp add: snapshotAll_def dict_values_def)
    from g d r names show ?thesis by blast
  qed
  have run: "layer_cache (run_calls cs ws_init) = run_ops (issued cs ws_init) []"
    using run_calls_as_ops [of cs ws_init] by (simp add: ws_init_def)
  have u: "dict_get (run_ops (ops @ [Upsert r]) []) (name r) = Some r"
    by (simp add: run_ops_def upsert_def dict_get_set)
  from ops [of "issued cs ws_init"] ops [of ops] u show ?thesis
    unfolding run by blast
qed

end
